theory Spec2Isabelle
  imports Complex_Main
begin


section \<open>The Enexory API client: \<^verbatim>\<open>enexory_api.py\<close>\<close>

text \<open>
  A shallow embedding of \<^verbatim>\<open>src/enexory_api.py\<close>. Bytes, and the text of a request and
  of a status message, are \<open>string\<close>; decoded text, which the program splits and reads
  character by character, is a list of Unicode code points (\<open>ustring\<close>). Python's
  unbounded integers are \<open>int\<close>, a raised exception is the \<open>Inl\<close> branch of a sum, the
  dictionary \<^verbatim>\<open>data_name_by_id\<close> is a map, and the network is a function from requests
  to responses together with the list of requests issued so far.
\<close>

subsection \<open>Decoded text\<close>

text \<open>
  A Python \<^verbatim>\<open>str\<close> is a sequence of code points; \<open>cp\<close> and \<open>ustr\<close> write the code
  points of a character and of a literal.
\<close>

type_synonym ustring = "nat list"

definition cp :: "char \<Rightarrow> nat" where
  "cp c = of_char c"

definition ustr :: "string \<Rightarrow> ustring" where
  "ustr s = map cp s"

subsection \<open>Exceptions, requests and responses\<close>

datatype error =
    Exception string        \<comment> \<open>\<^verbatim>\<open>raise Exception(msg)\<close> of \<^verbatim>\<open>check_response_status\<close>\<close>
  | ValueError ustring      \<comment> \<open>\<^verbatim>\<open>list.index\<close> of an absent element; \<^verbatim>\<open>int()\<close> of a bad literal\<close>
  | KeyError int            \<comment> \<open>\<^verbatim>\<open>data_name_by_id[data_id]\<close> of an absent key\<close>
  | UnicodeDecodeError      \<comment> \<open>\<^verbatim>\<open>bytes.decode("utf-8")\<close>\<close>
  | ZlibError               \<comment> \<open>\<^verbatim>\<open>zlib.decompress\<close>\<close>
  | ParserError             \<comment> \<open>\<^verbatim>\<open>pd.read_csv\<close>\<close>

record response =
  status_code :: int
  text_of :: string    \<comment> \<open>\<^verbatim>\<open>response.text\<close>, the body as text\<close>
  content :: string    \<comment> \<open>the body as bytes\<close>

datatype request =
    Get_all_data_types string                     \<comment> \<open>key\<close>
  | Getdata string "int list" string string       \<comment> \<open>key, data_ids, date_from, date_to\<close>

subsection \<open>Decimal rendering of integers (\<^verbatim>\<open>str.format\<close> of an \<^verbatim>\<open>int\<close>)\<close>

definition digit_char :: "nat \<Rightarrow> char" where
  "digit_char d = char_of (48 + d)"

function str_nat :: "nat \<Rightarrow> string" where
  "str_nat n = (if n < 10 then [digit_char n] else str_nat (n div 10) @ [digit_char (n mod 10)])"
  by pat_completeness auto
termination
  by (relation "measure id") auto

declare str_nat.simps [simp del]

definition str_int :: "int \<Rightarrow> string" where
  "str_int i = (if i < 0 then CHR ''-'' # str_nat (nat (- i)) else str_nat (nat i))"

subsection \<open>\<^verbatim>\<open>check_response_status\<close>\<close>

text \<open>
  \<^verbatim>\<open>"Response status code:{}\n\t{}".format(response.status_code, response.text)\<close>
\<close>

definition status_message :: "response \<Rightarrow> string" where
  "status_message response =
     ''Response status code:'' @ str_int (status_code response)
       @ [CHR 0x0A, CHR 0x09] @ text_of response"

definition check_response_status :: "response \<Rightarrow> error + unit" where
  "check_response_status response =
     (if status_code response \<noteq> 200 then Inl (Exception (status_message response))
      else Inr ())"

subsection \<open>\<^verbatim>\<open>str.split\<close>, \<^verbatim>\<open>list.index\<close> and \<^verbatim>\<open>int(str)\<close>\<close>

text \<open>\<^verbatim>\<open>s.split(sep)\<close> for a one-character separator: never empty, keeps empty fields.\<close>

fun str_split :: "'a \<Rightarrow> 'a list \<Rightarrow> 'a list list" where
  "str_split sep [] = [] # []"
| "str_split sep (c # cs) =
     (if c = sep then [] # str_split sep cs
      else (case str_split sep cs of
              [] \<Rightarrow> [c] # []
            | w # ws \<Rightarrow> (c # w) # ws))"

text \<open>\<^verbatim>\<open>xs.index(x)\<close>: the first position of \<open>x\<close>, \<open>None\<close> where Python raises ValueError.\<close>

fun index :: "'a list \<Rightarrow> 'a \<Rightarrow> nat option" where
  "index [] x = None"
| "index (y # ys) x = (if y = x then Some 0 else map_option Suc (index ys x))"

text \<open>
  \<^verbatim>\<open>int(s)\<close> in base 10, as CPython computes it. First the text is brought to ASCII: a
  code point below 127 stays as it is; above, a code point that the Unicode database of the
  interpreter counts as white space becomes a space, one that it counts as a decimal digit
  becomes the ASCII digit of its value, and any other one makes the conversion fail. The
  two tables of the database are parameters.
\<close>

record unicode_db =
  uni_isspace :: "nat \<Rightarrow> bool"            \<comment> \<open>\<^verbatim>\<open>Py_UNICODE_ISSPACE\<close>\<close>
  uni_todecimal :: "nat \<Rightarrow> nat option"    \<comment> \<open>\<^verbatim>\<open>Py_UNICODE_TODECIMAL\<close>, a value from 0 to 9\<close>

definition to_ascii :: "unicode_db \<Rightarrow> nat \<Rightarrow> nat option" where
  "to_ascii db ch =
     (if ch < 127 then Some ch
      else if uni_isspace db ch then Some (cp (CHR '' ''))
      else (case uni_todecimal db ch of
              None \<Rightarrow> None
            | Some d \<Rightarrow> if d < 10 then Some (cp (CHR ''0'') + d) else None))"

fun transform :: "unicode_db \<Rightarrow> ustring \<Rightarrow> ustring option" where
  "transform db [] = Some []"
| "transform db (ch # s) =
     (case to_ascii db ch of
        None \<Rightarrow> None
      | Some a \<Rightarrow> map_option ((#) a) (transform db s))"

text \<open>
  Then the ASCII text is read: the ASCII white space (tab, line feed, vertical tab, form
  feed, carriage return, space; the separators \<^verbatim>\<open>0x1C\<close> to \<^verbatim>\<open>0x1F\<close> are not among
  them) is skipped on both sides, then comes an optional sign, then decimal digits, where
  single underscores may stand between digits. More digits than \<open>int_max_str_digits\<close>
  (the default of \<^verbatim>\<open>sys.get_int_max_str_digits()\<close>) are refused. \<open>None\<close> where Python
  raises ValueError.
\<close>

definition isspace :: "nat \<Rightarrow> bool" where
  "isspace c = (c \<in> set [0x20, 0x09, 0x0A, 0x0B, 0x0C, 0x0D])"

definition isdigit :: "nat \<Rightarrow> bool" where
  "isdigit c = (cp (CHR ''0'') \<le> c \<and> c \<le> cp (CHR ''9''))"

definition strip :: "ustring \<Rightarrow> ustring" where
  "strip s = rev (dropWhile isspace (rev (dropWhile isspace s)))"

text \<open>The digits read so far are counted in \<open>n\<close>, their value is \<open>acc\<close>.\<close>

fun digits :: "bool \<Rightarrow> nat \<Rightarrow> nat \<Rightarrow> ustring \<Rightarrow> (nat \<times> nat) option" where
  "digits prev n acc [] = (if prev then Some (n, acc) else None)"
| "digits prev n acc (c # cs) =
     (if isdigit c then digits True (Suc n) (acc * 10 + (c - cp (CHR ''0''))) cs
      else if c = cp (CHR ''_'') \<and> prev then digits False n acc cs
      else None)"

definition int_max_str_digits :: nat where
  "int_max_str_digits = 4300"

definition magnitude :: "ustring \<Rightarrow> nat option" where
  "magnitude s =
     (case digits False 0 0 s of
        None \<Rightarrow> None
      | Some (n, v) \<Rightarrow> if n > int_max_str_digits then None else Some v)"

definition py_int :: "unicode_db \<Rightarrow> ustring \<Rightarrow> int option" where
  "py_int db s =
     (case transform db s of
        None \<Rightarrow> None
      | Some ascii \<Rightarrow>
          (case strip ascii of
             [] \<Rightarrow> None
           | c # cs \<Rightarrow>
               if c = cp (CHR ''-'') then map_option (\<lambda>v. - int v) (magnitude cs)
               else if c = cp (CHR ''+'') then map_option int (magnitude cs)
               else map_option int (magnitude (c # cs))))"

subsection \<open>\<^verbatim>\<open>get_all_data_types\<close>\<close>

text \<open>
  A logged warning (\<^verbatim>\<open>logging.warning("%s\n\t%s", str(e), fields)\<close>) is recorded as the
  exception and the fields of the line.
\<close>

datatype warning = Warning error "ustring list"

type_synonym catalog = "int \<rightharpoonup> ustring"

text \<open>
  The body of the \<^verbatim>\<open>for\<close> loop on a data line (\<^verbatim>\<open>header\<close> is false), on the state
  made of the dictionary and the warnings logged so far.
\<close>

definition data_line ::
  "unicode_db \<Rightarrow> nat \<Rightarrow> nat \<Rightarrow> ustring \<Rightarrow> catalog \<times> warning list \<Rightarrow> catalog \<times> warning list" where
  "data_line db api_id_index data_name_index line st =
     (let fields = str_split (cp (CHR '';'')) line in
      if length fields > max api_id_index data_name_index then
        (let api_id = fields ! api_id_index in
         case py_int db api_id of
           Some k \<Rightarrow> ((fst st)(k \<mapsto> fields ! data_name_index), snd st)
         | None \<Rightarrow> (fst st, snd st @ [Warning (ValueError api_id) fields]))
      else st)"

definition data_lines ::
  "unicode_db \<Rightarrow> nat \<Rightarrow> nat \<Rightarrow> ustring list \<Rightarrow> catalog \<times> warning list \<Rightarrow> catalog \<times> warning list" where
  "data_lines db api_id_index data_name_index lines st =
     fold (data_line db api_id_index data_name_index) lines st"

text \<open>
  Lines 25 to 40: the decoded body \<^verbatim>\<open>content\<close> is split into lines, the first line is the header, in
  which \<^verbatim>\<open>data_name\<close> and then \<^verbatim>\<open>api_id\<close> are looked up.
\<close>

definition parse_data_types :: "unicode_db \<Rightarrow> ustring \<Rightarrow> error + catalog \<times> warning list" where
  "parse_data_types db decoded =
     (case str_split (cp (CHR 0x0A)) decoded of
        [] \<Rightarrow> Inr (Map.empty, [])
      | header # lines \<Rightarrow>
          (let fields = str_split (cp (CHR '';'')) header in
           case index fields (ustr ''data_name'') of
             None \<Rightarrow> Inl (ValueError (ustr ''data_name''))
           | Some data_name_index \<Rightarrow>
               (case index fields (ustr ''api_id'') of
                  None \<Rightarrow> Inl (ValueError (ustr ''api_id''))
                | Some api_id_index \<Rightarrow>
                    Inr (data_lines db api_id_index data_name_index lines (Map.empty, [])))))"

subsection \<open>The network and the two fetchers\<close>

text \<open>
  What the program calls and does not define: \<^verbatim>\<open>requests.post\<close> (which answers or
  raises), \<^verbatim>\<open>bytes.decode("utf-8")\<close>, \<^verbatim>\<open>zlib.decompress\<close>, \<^verbatim>\<open>pd.read_csv\<close> and the
  Unicode database of the interpreter are parameters. Each fetcher takes the requests sent
  so far and returns them extended by its own request.
\<close>

type_synonym row = "int \<times> real option list"

record dataframe =
  columns :: "string list"
  rows :: "row list"

record env =
  post :: "request \<Rightarrow> error + response"
  decode_utf8 :: "string \<Rightarrow> ustring option"
  decompress :: "string \<Rightarrow> string option"
  read_csv :: "ustring \<Rightarrow> ustring list \<Rightarrow> error + dataframe"
  unicode :: unicode_db

definition get_all_data_types ::
  "env \<Rightarrow> string \<Rightarrow> request list \<Rightarrow> (error + catalog \<times> warning list) \<times> request list" where
  "get_all_data_types env api_key sent =
     (let data = Get_all_data_types api_key; sent' = sent @ [data] in
      case post env data of
        Inl e \<Rightarrow> (Inl e, sent')
      | Inr response \<Rightarrow>
          (case check_response_status response of
             Inl e \<Rightarrow> (Inl e, sent')
           | Inr _ \<Rightarrow>
               (case decode_utf8 env (content response) of
                  None \<Rightarrow> (Inl UnicodeDecodeError, sent')
                | Some decoded \<Rightarrow> (parse_data_types (unicode env) decoded, sent'))))"

definition get_data ::
  "env \<Rightarrow> string \<Rightarrow> int list \<Rightarrow> string \<Rightarrow> string \<Rightarrow> request list \<Rightarrow> (error + ustring) \<times> request list" where
  "get_data env api_key data_ids date_from date_to sent =
     (let data = Getdata api_key data_ids date_from date_to; sent' = sent @ [data] in
      case post env data of
        Inl e \<Rightarrow> (Inl e, sent')
      | Inr response \<Rightarrow>
          (case check_response_status response of
             Inl e \<Rightarrow> (Inl e, sent')
           | Inr _ \<Rightarrow>
               (case decompress env (content response) of
                  None \<Rightarrow> (Inl ZlibError, sent')
                | Some raw \<Rightarrow>
                    (case decode_utf8 env raw of
                       None \<Rightarrow> (Inl UnicodeDecodeError, sent')
                     | Some csv_data \<Rightarrow> (Inr csv_data, sent')))))"

subsection \<open>Data frames\<close>

text \<open>
  A data frame with a time index is its column labels and its rows; a row is a time stamp
  (seconds since the epoch) and one cell for each column, where \<open>None\<close> is the missing
  value NaN. Floating-point numbers are idealised as reals. Columns are addressed by
  position (the labels are taken to be distinct). A cell beyond the end of a short row is
  missing.
\<close>

definition cell :: "row \<Rightarrow> nat \<Rightarrow> real option" where
  "cell r c = (if c < length (snd r) then snd r ! c else None)"

text \<open>\<^verbatim>\<open>df[col]\<close>\<close>

definition column_values :: "dataframe \<Rightarrow> nat \<Rightarrow> real option list" where
  "column_values df c = map (\<lambda>r. cell r c) (rows df)"

fun present :: "real option list \<Rightarrow> real list" where
  "present [] = []"
| "present (None # vs) = present vs"
| "present (Some x # vs) = x # present vs"

text \<open>
  \<^verbatim>\<open>mean\<close> and \<^verbatim>\<open>std\<close> of a column as pandas computes them: over the present values,
  NaN when there is none (for \<^verbatim>\<open>std\<close>: fewer than two, since it divides by \<open>n - 1\<close>).
\<close>

definition mean :: "real option list \<Rightarrow> real option" where
  "mean vs =
     (let xs = present vs in
      if xs = [] then None else Some (sum_list xs / real (length xs)))"

definition std :: "real option list \<Rightarrow> real option" where
  "std vs =
     (let xs = present vs; n = length xs in
      if n < 2 then None
      else (let m = sum_list xs / real n in
            Some (sqrt (sum_list (map (\<lambda>x. (x - m)\<^sup>2) xs) / real (n - 1)))))"

text \<open>Arithmetic and comparison with NaN: NaN propagates, and every comparison with it is false.\<close>

definition nan_sub :: "real option \<Rightarrow> real option \<Rightarrow> real option" where
  "nan_sub a b = (case (a, b) of (Some x, Some y) \<Rightarrow> Some (x - y) | _ \<Rightarrow> None)"

definition nan_abs :: "real option \<Rightarrow> real option" where
  "nan_abs a = map_option abs a"

definition nan_mult :: "real option \<Rightarrow> real \<Rightarrow> real option" where
  "nan_mult a k = map_option (\<lambda>x. x * k) a"

definition nan_less :: "real option \<Rightarrow> real option \<Rightarrow> bool" where
  "nan_less a b = (case (a, b) of (Some x, Some y) \<Rightarrow> x < y | _ \<Rightarrow> False)"

subsection \<open>Example 4: \<^verbatim>\<open>df.resample(timedelta(hours=4)).mean()\<close>\<close>

text \<open>
  What pandas does for a fixed step \<open>freq\<close> (in seconds) with its defaults
  \<^verbatim>\<open>closed='left'\<close>, \<^verbatim>\<open>label='left'\<close>, \<^verbatim>\<open>origin='start_day'\<close>: the bins are the
  left-closed intervals of the length of the step, counted from the midnight before the
  earliest time stamp. The result has one row for every bin from the bin of the earliest
  time stamp to the bin of the latest one, labelled by the start of the bin, and each cell
  is the mean of the column over the rows of the bin. An empty frame stays empty.
\<close>

definition day :: int where
  "day = 24 * 3600"

definition four_hours :: int where
  "four_hours = 4 * 3600"

definition bin_start :: "int \<Rightarrow> int \<Rightarrow> int \<Rightarrow> int" where
  "bin_start origin freq t = origin + ((t - origin) div freq) * freq"

definition in_bin :: "int \<Rightarrow> int \<Rightarrow> dataframe \<Rightarrow> dataframe" where
  "in_bin freq b df = df\<lparr>rows := filter (\<lambda>r. b \<le> fst r \<and> fst r < b + freq) (rows df)\<rparr>"

text \<open>The origin of the bins (\<^verbatim>\<open>origin='start_day'\<close>): the midnight before the earliest time stamp.\<close>

definition start_day :: "int list \<Rightarrow> int" where
  "start_day ts = (Min (set ts) div day) * day"

definition bin_labels :: "int \<Rightarrow> int list \<Rightarrow> int list" where
  "bin_labels freq ts =
     (let origin = start_day ts;
          first = bin_start origin freq (Min (set ts));
          last = bin_start origin freq (Max (set ts))
      in map (\<lambda>k. first + int k * freq) [0 ..< Suc (nat ((last - first) div freq))])"

definition resample_mean :: "int \<Rightarrow> dataframe \<Rightarrow> dataframe" where
  "resample_mean freq df =
     (if rows df = [] then df
      else df\<lparr>rows :=
             map (\<lambda>b. (b, map (\<lambda>c. mean (column_values (in_bin freq b df) c))
                               [0 ..< length (columns df)]))
                 (bin_labels freq (map fst (rows df)))\<rparr>)"

subsection \<open>Example 5: removing anomalies\<close>

text \<open>
  One pass of the loop body for the column at position \<open>c\<close>:
  \<^verbatim>\<open>df = df.loc[abs(df[col] - mean) < max_dev]\<close> keeps the rows where the comparison is
  true. The printed line is recorded as a report.
\<close>

datatype report = Removed nat string | Not_found string

definition anomalies_mask :: "dataframe \<Rightarrow> nat \<Rightarrow> row \<Rightarrow> bool" where
  "anomalies_mask df c r =
     (let mean_c = mean (column_values df c);
          max_dev = nan_mult (std (column_values df c)) 10
      in nan_less (nan_abs (nan_sub (cell r c) mean_c)) max_dev)"

definition remove_anomalies_col :: "dataframe \<Rightarrow> nat \<Rightarrow> dataframe" where
  "remove_anomalies_col df c = df\<lparr>rows := filter (anomalies_mask df c) (rows df)\<rparr>"

definition anomalies_step :: "nat \<Rightarrow> dataframe \<times> report list \<Rightarrow> dataframe \<times> report list" where
  "anomalies_step c st =
     (let df = fst st;
          row_count = length (rows df);
          df' = remove_anomalies_col df c;
          new_row_count = length (rows df')
      in (df', snd st @ [if new_row_count \<noteq> row_count
                         then Removed (row_count - new_row_count) (columns df ! c)
                         else Not_found (columns df ! c)]))"

text \<open>\<^verbatim>\<open>for col in df\<close> visits the columns from left to right.\<close>

definition remove_anomalies_cols :: "nat list \<Rightarrow> dataframe \<Rightarrow> dataframe \<times> report list" where
  "remove_anomalies_cols cs df = fold anomalies_step cs (df, [])"

definition remove_anomalies :: "dataframe \<Rightarrow> dataframe \<times> report list" where
  "remove_anomalies df = remove_anomalies_cols [0 ..< length (columns df)] df"

subsection \<open>Example 6: \<^verbatim>\<open>df.fillna(method='ffill')\<close>\<close>

text \<open>
  The rows are visited in their order; \<open>prev\<close> holds, for each column, the last value
  seen so far (missing when there is none).
\<close>

fun ffill_rows :: "nat \<Rightarrow> real option list \<Rightarrow> row list \<Rightarrow> row list" where
  "ffill_rows n prev [] = []"
| "ffill_rows n prev (r # rs) =
     (let filled = map (\<lambda>c. case cell r c of None \<Rightarrow> prev ! c | Some x \<Rightarrow> Some x) [0 ..< n]
      in (fst r, filled) # ffill_rows n filled rs)"

definition fillna_ffill :: "dataframe \<Rightarrow> dataframe" where
  "fillna_ffill df =
     df\<lparr>rows := ffill_rows (length (columns df)) (replicate (length (columns df)) None) (rows df)\<rparr>"

subsection \<open>\<^verbatim>\<open>main\<close>\<close>

record args =
  api_key :: string
  data_id :: "int list"     \<comment> \<open>empty when \<^verbatim>\<open>--data_id\<close> is not given\<close>
  date_from :: string
  date_to :: string

datatype outcome = Catalog catalog | Frame dataframe "report list"

text \<open>\<^verbatim>\<open>[data_name_by_id[data_id] for data_id in args.data_id]\<close>\<close>

fun data_names_of :: "catalog \<Rightarrow> int list \<Rightarrow> error + ustring list" where
  "data_names_of data_name_by_id [] = Inr []"
| "data_names_of data_name_by_id (i # ids) =
     (case data_name_by_id i of
        None \<Rightarrow> Inl (KeyError i)
      | Some name \<Rightarrow>
          (case data_names_of data_name_by_id ids of
             Inl e \<Rightarrow> Inl e
           | Inr names \<Rightarrow> Inr (name # names)))"

text \<open>\<^verbatim>\<open>csv_data.replace(";\n", "\n")\<close>\<close>

fun replace_sep_newline :: "ustring \<Rightarrow> ustring" where
  "replace_sep_newline (a # b # cs) =
     (if a = cp (CHR '';'') \<and> b = cp (CHR 0x0A) then cp (CHR 0x0A) # replace_sep_newline cs
      else a # replace_sep_newline (b # cs))"
| "replace_sep_newline cs = cs"

text \<open>
  The run: the value is the exception that ends it, or what it computes (the catalog
  without \<^verbatim>\<open>--data_id\<close>, the final data frame and the anomaly reports with it), together
  with the requests sent. The summaries printed between the stages are left out.
\<close>

definition main :: "env \<Rightarrow> args \<Rightarrow> (error + outcome) \<times> request list" where
  "main env a =
     (case get_all_data_types env (api_key a) [] of
        (Inl e, sent) \<Rightarrow> (Inl e, sent)
      | (Inr (data_name_by_id, warnings), sent) \<Rightarrow>
          if data_id a \<noteq> [] then
            (case data_names_of data_name_by_id (data_id a) of
               Inl e \<Rightarrow> (Inl e, sent)
             | Inr data_names \<Rightarrow>
                 (case get_data env (api_key a) (data_id a) (date_from a) (date_to a) sent of
                    (Inl e, sent') \<Rightarrow> (Inl e, sent')
                  | (Inr csv_data, sent') \<Rightarrow>
                      (case read_csv env (replace_sep_newline csv_data)
                                     (ustr ''date_time'' # data_names) of
                         Inl e \<Rightarrow> (Inl e, sent')
                       | Inr df \<Rightarrow>
                           (let (df5, reports) = remove_anomalies (resample_mean four_hours df)
                            in (Inr (Frame (fillna_ffill df5) reports), sent')))))
          else (Inr (Catalog data_name_by_id), sent))"

section \<open>Notions used in the statements\<close>

subsection \<open>Kinds of catalog line\<close>

text \<open>
  The two kinds of data line that the loop skips (too few fields to reach both columns; an id
  that \<^verbatim>\<open>int()\<close> rejects) and the kind it records, for the header positions \<open>ai\<close> of
  \<^verbatim>\<open>api_id\<close> and \<open>dn\<close> of \<^verbatim>\<open>data_name\<close>.
\<close>

definition too_short :: "nat \<Rightarrow> nat \<Rightarrow> ustring \<Rightarrow> bool" where
  "too_short ai dn line = (length (str_split (cp (CHR '';'')) line) \<le> max ai dn)"

definition non_numeric_id :: "unicode_db \<Rightarrow> nat \<Rightarrow> nat \<Rightarrow> ustring \<Rightarrow> bool" where
  "non_numeric_id db ai dn line =
     (\<not> too_short ai dn line \<and> py_int db (str_split (cp (CHR '';'')) line ! ai) = None)"

definition well_formed :: "unicode_db \<Rightarrow> nat \<Rightarrow> nat \<Rightarrow> ustring \<Rightarrow> int \<Rightarrow> bool" where
  "well_formed db ai dn line k =
     (\<not> too_short ai dn line \<and> py_int db (str_split (cp (CHR '';'')) line ! ai) = Some k)"

subsection \<open>Example inputs\<close>

text \<open>The lines of a body, joined by line feeds.\<close>

fun join_lines :: "ustring list \<Rightarrow> ustring" where
  "join_lines [] = []"
| "join_lines [l] = l"
| "join_lines (l # ls) = l @ cp (CHR 0x0A) # join_lines ls"

text \<open>
  A few entries of the Unicode database: the white space U+0085, U+00A0 and U+2003, and the
  Arabic-Indic digits U+0660 to U+0669.
\<close>

definition example_db :: unicode_db where
  "example_db =
     \<lparr>uni_isspace = (\<lambda>c. c \<in> set [0x85, 0xA0, 0x2003]),
      uni_todecimal = (\<lambda>c. if 0x660 \<le> c \<and> c \<le> 0x669 then Some (c - 0x660) else None)\<rparr>"

text \<open>The decoding of bytes that are all ASCII.\<close>

definition decode_ascii :: "string \<Rightarrow> ustring option" where
  "decode_ascii b = (if list_all (\<lambda>c. cp c < 128) b then Some (ustr b) else None)"

definition not_found :: response where
  "not_found = \<lparr>status_code = 404, text_of = ''Not Found'', content = ''Not Found''\<rparr>"

definition ok_catalog :: response where
  "ok_catalog = \<lparr>status_code = 200, text_of = [],
                 content = ''api_id;data_name'' @ [CHR 0x0A] @ ''1;load''\<rparr>"

definition env_example :: "response \<Rightarrow> env" where
  "env_example r = \<lparr>post = (\<lambda>_. Inr r), decode_utf8 = decode_ascii, decompress = Some,
                     read_csv = (\<lambda>_ _. Inl ParserError), unicode = example_db\<rparr>"

definition args_example :: args where
  "args_example = \<lparr>api_key = ''k'', data_id = [1, 2], date_from = ''2024-01-01'',
                    date_to = ''2024-01-02''\<rparr>"

subsection \<open>Forward fill of one column\<close>

text \<open>
  The forward fill of a single column, started with the value \<open>p\<close> carried so far; the
  rows of \<open>ffill_rows\<close> are shown to do this in every column.
\<close>

fun column_ffill :: "real option \<Rightarrow> real option list \<Rightarrow> real option list" where
  "column_ffill p [] = []"
| "column_ffill p (v # vs) =
     (let f = (case v of None \<Rightarrow> p | Some x \<Rightarrow> Some x) in f # column_ffill f vs)"

definition ffill_example :: dataframe where
  "ffill_example =
     \<lparr>columns = [''a'', ''b''],
      rows = [(0, [Some 1, None]), (1, [None, None]), (2, [None, Some 3]),
              (3, [Some 2, None]), (4, [None, None])]\<rparr>"

subsection \<open>Outliers and example frames\<close>

text \<open>
  A row is an outlier of a column when its value there is present and at least ten standard
  deviations away from the mean of the column.
\<close>

definition outlier :: "dataframe \<Rightarrow> nat \<Rightarrow> row \<Rightarrow> bool" where
  "outlier df c r =
     (case (cell r c, mean (column_values df c), std (column_values df c)) of
        (Some x, Some m, Some s) \<Rightarrow> \<bar>x - m\<bar> \<ge> 10 * s
      | _ \<Rightarrow> False)"

text \<open>Three equal values; a column with a gap.\<close>

definition flat_frame :: dataframe where
  "flat_frame = \<lparr>columns = [''a''], rows = [(0, [Some 5]), (1, [Some 5]), (2, [Some 5])]\<rparr>"

definition missing_frame :: dataframe where
  "missing_frame =
     \<lparr>columns = [''a''], rows = [(0, [Some 1]), (1, [None]), (2, [Some 2]), (3, [Some 3])]\<rparr>"

text \<open>
  A hundred rows of zeros, a row that stands out in column \<open>A\<close> and a later row that
  stands out in column \<open>B\<close>; and the same frame with its two columns exchanged.
\<close>

definition base_rows :: "row list" where
  "base_rows = map (\<lambda>i. (int i, [Some 0, Some 0])) [0 ..< 100]"

definition two_outliers :: dataframe where
  "two_outliers =
     \<lparr>columns = [''A'', ''B''],
      rows = base_rows @ [(100, [Some 1, Some 0]), (101, [Some 0, Some 1])]\<rparr>"

definition swap_columns :: "dataframe \<Rightarrow> dataframe" where
  "swap_columns df =
     \<lparr>columns = rev (columns df), rows = map (\<lambda>r. (fst r, rev (snd r))) (rows df)\<rparr>"

subsection \<open>Example frames for the resampling\<close>

text \<open>
  Two rows eight hours apart; a day of rows every 15 minutes from midnight; and a frame with
  three rows in its first bin, where the second column has no value.
\<close>

definition gap_frame :: dataframe where
  "gap_frame = \<lparr>columns = [''a''], rows = [(0, [Some 1]), (28800, [Some 2])]\<rparr>"

definition day_frame :: dataframe where
  "day_frame = \<lparr>columns = [''a''], rows = map (\<lambda>i. (900 * int i, [Some (real i)])) [0 ..< 96]\<rparr>"

definition bucket_frame :: dataframe where
  "bucket_frame =
     \<lparr>columns = [''a'', ''b''],
      rows = [(0, [Some 1, None]), (3600, [Some 3, None]), (7200, [None, None]),
              (14400, [Some 5, Some 2])]\<rparr>"

section \<open>The catalog fetcher\<close>

subsection \<open>Reading an integer\<close>

text \<open>
  The separators \<^verbatim>\<open>0x1C\<close> to \<^verbatim>\<open>0x1F\<close> are not skipped, whatever the Unicode database
  says about them, and a text that is read as a number has no more digits than the limit.
\<close>

lemma py_int_separator: "c \<in> {0x1C, 0x1D, 0x1E, 0x1F} \<Longrightarrow> py_int db (c # ustr ''7'') = None"
  by (auto simp: py_int_def to_ascii_def ustr_def cp_def strip_def isspace_def magnitude_def
      isdigit_def)

lemma digits_count:
  "digits prev n acc s = Some (m, v) \<Longrightarrow> m = n + length (filter isdigit s)"
  by (induction prev n acc s rule: digits.induct) (auto split: if_splits)

lemma magnitude_limit:
  "magnitude s = Some v \<Longrightarrow> length (filter isdigit s) \<le> int_max_str_digits"
  by (auto simp: magnitude_def split: option.splits if_splits dest: digits_count)

subsection \<open>The loop over the data lines\<close>

lemma data_line_fst: "fst (data_line db ai dn l (c, w)) = fst (data_line db ai dn l (c, w'))"
  by (simp add: data_line_def Let_def split: option.splits)

lemma data_lines_Nil: "data_lines db ai dn [] st = st"
  by (simp add: data_lines_def)

lemma data_lines_Cons:
  "data_lines db ai dn (x # xs) st = data_lines db ai dn xs (data_line db ai dn x st)"
  by (simp add: data_lines_def)

lemma data_lines_append:
  "data_lines db ai dn (xs @ ys) st = data_lines db ai dn ys (data_lines db ai dn xs st)"
  by (simp add: data_lines_def)

lemma data_lines_fst: "fst (data_lines db ai dn ls (c, w)) = fst (data_lines db ai dn ls (c, w'))"
proof (induction ls arbitrary: c w w')
  case Nil
  show ?case by (simp add: data_lines_Nil)
next
  case (Cons l ls)
  obtain c1 w1 where a: "data_line db ai dn l (c, w) = (c1, w1)" by (cases "data_line db ai dn l (c, w)")
  obtain c2 w2 where b: "data_line db ai dn l (c, w') = (c2, w2)" by (cases "data_line db ai dn l (c, w')")
  have "c1 = c2" using data_line_fst[of db ai dn l c w w'] a b by simp
  then show ?case using Cons.IH[of c1 w1 w2] a b by (simp add: data_lines_Cons)
qed

lemma data_line_too_short: "too_short ai dn line \<Longrightarrow> data_line db ai dn line st = st"
  by (auto simp: data_line_def too_short_def Let_def)

lemma data_line_non_numeric:
  "non_numeric_id db ai dn line \<Longrightarrow>
   data_line db ai dn line st =
     (fst st, snd st @ [Warning (ValueError (str_split (cp (CHR '';'')) line ! ai))
                                (str_split (cp (CHR '';'')) line)])"
  by (auto simp: data_line_def non_numeric_id_def too_short_def Let_def)

lemma data_line_well_formed:
  "well_formed db ai dn line k \<Longrightarrow>
   data_line db ai dn line st = ((fst st)(k \<mapsto> str_split (cp (CHR '';'')) line ! dn), snd st)"
  by (auto simp: data_line_def well_formed_def too_short_def Let_def)

lemma data_line_cases:
  "too_short ai dn line \<or> non_numeric_id db ai dn line \<or> (\<exists>k. well_formed db ai dn line k)"
  by (cases "py_int db (str_split (cp (CHR '';'')) line ! ai)")
     (auto simp: non_numeric_id_def well_formed_def)

lemma data_lines_skip_fst:
  assumes "too_short ai dn line \<or> non_numeric_id db ai dn line"
  shows "fst (data_lines db ai dn (pre @ line # later) st) = fst (data_lines db ai dn (pre @ later) st)"
proof -
  obtain c w where st: "data_lines db ai dn pre st = (c, w)"
    by (cases "data_lines db ai dn pre st")
  from assms obtain w' where "data_line db ai dn line (c, w) = (c, w')"
    by (auto simp: data_line_too_short data_line_non_numeric)
  then show ?thesis
    using data_lines_fst[of db ai dn later c w' w]
    by (simp add: data_lines_append data_lines_Cons st)
qed

lemma data_lines_warnings_mono:
  "set (snd st) \<subseteq> set (snd (data_lines db ai dn ls st))"
proof (induction ls arbitrary: st)
  case Nil
  show ?case by (simp add: data_lines_Nil)
next
  case (Cons l ls)
  have "set (snd st) \<subseteq> set (snd (data_line db ai dn l st))"
    by (auto simp: data_line_def Let_def split: option.splits)
  then show ?case using Cons.IH[of "data_line db ai dn l st"]
    by (auto simp: data_lines_Cons)
qed

lemma data_lines_keeps:
  assumes "\<forall>l \<in> set ls. \<not> well_formed db ai dn l k"
  shows "fst (data_lines db ai dn ls st) k = fst st k"
  using assms
proof (induction ls arbitrary: st)
  case Nil
  show ?case by (simp add: data_lines_Nil)
next
  case (Cons l ls)
  have "fst (data_line db ai dn l st) k = fst st k"
    using Cons.prems data_line_cases[of ai dn l db]
    by (auto simp: data_line_too_short data_line_non_numeric data_line_well_formed)
  then show ?case using Cons by (simp add: data_lines_Cons)
qed

lemma parse_data_types_header:
  assumes "str_split (cp (CHR 0x0A)) decoded = header # lines"
    and "index (str_split (cp (CHR '';'')) header) (ustr ''data_name'') = Some dn"
    and "index (str_split (cp (CHR '';'')) header) (ustr ''api_id'') = Some ai"
  shows "parse_data_types db decoded = Inr (data_lines db ai dn lines (Map.empty, []))"
  using assms by (simp add: parse_data_types_def)

text \<open>
  Claim C8. While the catalog is parsed, a data line with too few fields to reach the id and
  the name columns is skipped: the result is the one of the body without that line. A data
  line whose id field is not numeric is skipped with a recorded warning: the parse still
  returns a catalog, the catalog is the one of the body without that line, and the warning
  for the line is among the recorded ones.
\<close>

theorem skipped_lines:
  assumes "str_split (cp (CHR 0x0A)) decoded = header # pre @ line # later"
    and "str_split (cp (CHR 0x0A)) decoded' = header # pre @ later"
    and "index (str_split (cp (CHR '';'')) header) (ustr ''data_name'') = Some dn"
    and "index (str_split (cp (CHR '';'')) header) (ustr ''api_id'') = Some ai"
  shows "(too_short ai dn line \<longrightarrow>
            (\<exists>cat w. parse_data_types db decoded = Inr (cat, w) \<and>
                     parse_data_types db decoded' = Inr (cat, w))) \<and>
         (non_numeric_id db ai dn line \<longrightarrow>
            (\<exists>cat w w'. parse_data_types db decoded = Inr (cat, w) \<and>
                     parse_data_types db decoded' = Inr (cat, w') \<and>
                     Warning (ValueError (str_split (cp (CHR '';'')) line ! ai))
                             (str_split (cp (CHR '';'')) line) \<in> set w))"
proof (intro conjI impI)
  let ?st = "data_lines db ai dn pre (Map.empty, [])"
  have d: "parse_data_types db decoded = Inr (data_lines db ai dn (pre @ line # later) (Map.empty, []))"
    using assms(1,3,4) by (rule parse_data_types_header)
  have d': "parse_data_types db decoded' = Inr (data_lines db ai dn (pre @ later) (Map.empty, []))"
    using assms(2,3,4) by (rule parse_data_types_header)
  {
    assume "too_short ai dn line"
    then have "data_lines db ai dn (pre @ line # later) (Map.empty, []) =
               data_lines db ai dn (pre @ later) (Map.empty, [])"
      by (simp add: data_lines_append data_lines_Cons data_line_too_short)
    then show "\<exists>cat w. parse_data_types db decoded = Inr (cat, w) \<and>
                     parse_data_types db decoded' = Inr (cat, w)"
      using d d' by (cases "data_lines db ai dn (pre @ later) (Map.empty, [])") simp
  }
  {
    assume n: "non_numeric_id db ai dn line"
    let ?w = "Warning (ValueError (str_split (cp (CHR '';'')) line ! ai)) (str_split (cp (CHR '';'')) line)"
    have "?w \<in> set (snd (data_line db ai dn line ?st))"
      using n by (simp add: data_line_non_numeric)
    then have "?w \<in> set (snd (data_lines db ai dn (pre @ line # later) (Map.empty, [])))"
      using data_lines_warnings_mono[of "data_line db ai dn line ?st" db ai dn later]
      by (auto simp: data_lines_append data_lines_Cons)
    moreover have "fst (data_lines db ai dn (pre @ line # later) (Map.empty, [])) =
                   fst (data_lines db ai dn (pre @ later) (Map.empty, []))"
      using n by (simp add: data_lines_skip_fst)
    ultimately show "\<exists>cat w w'. parse_data_types db decoded = Inr (cat, w) \<and>
                     parse_data_types db decoded' = Inr (cat, w') \<and> ?w \<in> set w"
      using d d'
      by (cases "data_lines db ai dn (pre @ line # later) (Map.empty, [])";
          cases "data_lines db ai dn (pre @ later) (Map.empty, [])") auto
  }
qed

theorem skipped_lines_witness:
  "too_short 0 1 (ustr ''7'') \<and>
   (\<exists>cat w. parse_data_types example_db
               (join_lines (map ustr [''api_id;data_name'', ''1;load'', ''7'', ''x;wind'', ''2;solar'']))
               = Inr (cat, w) \<and>
            parse_data_types example_db
               (join_lines (map ustr [''api_id;data_name'', ''1;load'', ''x;wind'', ''2;solar'']))
               = Inr (cat, w)) \<and>
   non_numeric_id example_db 0 1 (ustr ''x;wind'') \<and>
   non_numeric_id example_db 0 1 (0x1C # ustr ''7;fs'') \<and>
   (\<exists>cat w w'. parse_data_types example_db
               (join_lines [ustr ''api_id;data_name'', ustr ''1;load'', 0x1C # ustr ''7;fs'', ustr ''2;solar''])
               = Inr (cat, w) \<and>
            parse_data_types example_db
               (join_lines [ustr ''api_id;data_name'', ustr ''1;load'', ustr ''2;solar''])
               = Inr (cat, w') \<and>
            Warning (ValueError (0x1C # ustr ''7'')) [0x1C # ustr ''7'', ustr ''fs''] \<in> set w)"
proof -
  have a: "str_split (cp (CHR 0x0A))
             (join_lines (map ustr [''api_id;data_name'', ''1;load'', ''7'', ''x;wind'', ''2;solar'']))
           = ustr ''api_id;data_name'' # [ustr ''1;load''] @ ustr ''7'' # [ustr ''x;wind'', ustr ''2;solar'']"
    by code_simp
  have b: "str_split (cp (CHR 0x0A))
             (join_lines (map ustr [''api_id;data_name'', ''1;load'', ''x;wind'', ''2;solar'']))
           = ustr ''api_id;data_name'' # [ustr ''1;load''] @ [ustr ''x;wind'', ustr ''2;solar'']"
    by code_simp
  have a': "str_split (cp (CHR 0x0A))
             (join_lines [ustr ''api_id;data_name'', ustr ''1;load'', 0x1C # ustr ''7;fs'', ustr ''2;solar''])
           = ustr ''api_id;data_name'' # [ustr ''1;load''] @ (0x1C # ustr ''7;fs'') # [ustr ''2;solar'']"
    by code_simp
  have c: "str_split (cp (CHR 0x0A))
             (join_lines [ustr ''api_id;data_name'', ustr ''1;load'', ustr ''2;solar''])
           = ustr ''api_id;data_name'' # [ustr ''1;load''] @ [ustr ''2;solar'']"
    by code_simp
  have dn: "index (str_split (cp (CHR '';'')) (ustr ''api_id;data_name'')) (ustr ''data_name'') = Some 1"
    by code_simp
  have ai: "index (str_split (cp (CHR '';'')) (ustr ''api_id;data_name'')) (ustr ''api_id'') = Some 0"
    by code_simp
  have t: "too_short 0 1 (ustr ''7'')" by code_simp
  have n: "non_numeric_id example_db 0 1 (ustr ''x;wind'')" by code_simp
  have n': "non_numeric_id example_db 0 1 (0x1C # ustr ''7;fs'')" by code_simp
  have f: "str_split (cp (CHR '';'')) (0x1C # ustr ''7;fs'') = [0x1C # ustr ''7'', ustr ''fs'']"
    by code_simp
  from skipped_lines[OF a b dn ai, of example_db] t
  have 1: "\<exists>cat w. parse_data_types example_db
               (join_lines (map ustr [''api_id;data_name'', ''1;load'', ''7'', ''x;wind'', ''2;solar'']))
               = Inr (cat, w) \<and>
            parse_data_types example_db
               (join_lines (map ustr [''api_id;data_name'', ''1;load'', ''x;wind'', ''2;solar'']))
               = Inr (cat, w)"
    by blast
  from skipped_lines[OF a' c dn ai, of example_db] n'
  have 2: "\<exists>cat w w'. parse_data_types example_db
               (join_lines [ustr ''api_id;data_name'', ustr ''1;load'', 0x1C # ustr ''7;fs'', ustr ''2;solar''])
               = Inr (cat, w) \<and>
            parse_data_types example_db
               (join_lines [ustr ''api_id;data_name'', ustr ''1;load'', ustr ''2;solar''])
               = Inr (cat, w') \<and>
            Warning (ValueError (str_split (cp (CHR '';'')) (0x1C # ustr ''7;fs'') ! 0))
                    (str_split (cp (CHR '';'')) (0x1C # ustr ''7;fs'')) \<in> set w"
    by blast
  from 1 2 t n n' show ?thesis unfolding f by simp
qed

text \<open>
  Claim C10. When several well-formed data lines carry the same numeric id, the returned
  catalog maps the id to the name of the last such line; a map holds one name for an id.
\<close>

theorem last_line_wins:
  assumes "str_split (cp (CHR 0x0A)) decoded = header # pre @ line # later"
    and "index (str_split (cp (CHR '';'')) header) (ustr ''data_name'') = Some dn"
    and "index (str_split (cp (CHR '';'')) header) (ustr ''api_id'') = Some ai"
    and "well_formed db ai dn line k"
    and "\<forall>l \<in> set later. \<not> well_formed db ai dn l k"
  shows "\<exists>cat w. parse_data_types db decoded = Inr (cat, w) \<and>
                 cat k = Some (str_split (cp (CHR '';'')) line ! dn)"
proof -
  let ?st = "data_lines db ai dn pre (Map.empty, [])"
  have d: "parse_data_types db decoded = Inr (data_lines db ai dn (pre @ line # later) (Map.empty, []))"
    using assms(1,2,3) by (rule parse_data_types_header)
  have "fst (data_lines db ai dn later (data_line db ai dn line ?st)) k = fst (data_line db ai dn line ?st) k"
    using assms(5) by (rule data_lines_keeps)
  also have "\<dots> = Some (str_split (cp (CHR '';'')) line ! dn)"
    using assms(4) by (simp add: data_line_well_formed)
  finally show ?thesis
    using d by (cases "data_lines db ai dn (pre @ line # later) (Map.empty, [])")
               (simp add: data_lines_append data_lines_Cons)
qed

theorem last_line_wins_witness:
  "\<exists>cat w. parse_data_types example_db
              (join_lines [ustr ''api_id;data_name'', ustr ''7;load'', ustr ''07;wind'',
                           ustr ''8;solar'', ustr ''x;7'', 0x1C # ustr ''7;fs''])
              = Inr (cat, w) \<and>
            cat 7 = Some (ustr ''wind'')"
proof -
  have a: "str_split (cp (CHR 0x0A))
             (join_lines [ustr ''api_id;data_name'', ustr ''7;load'', ustr ''07;wind'',
                          ustr ''8;solar'', ustr ''x;7'', 0x1C # ustr ''7;fs''])
           = ustr ''api_id;data_name'' # [ustr ''7;load''] @ ustr ''07;wind'' #
               [ustr ''8;solar'', ustr ''x;7'', 0x1C # ustr ''7;fs'']"
    by code_simp
  have dn: "index (str_split (cp (CHR '';'')) (ustr ''api_id;data_name'')) (ustr ''data_name'') = Some 1"
    by code_simp
  have ai: "index (str_split (cp (CHR '';'')) (ustr ''api_id;data_name'')) (ustr ''api_id'') = Some 0"
    by code_simp
  have wf: "well_formed example_db 0 1 (ustr ''07;wind'') 7" by code_simp
  have l: "\<forall>l \<in> set [ustr ''8;solar'', ustr ''x;7'', 0x1C # ustr ''7;fs''].
             \<not> well_formed example_db 0 1 l 7"
    by code_simp
  have f: "str_split (cp (CHR '';'')) (ustr ''07;wind'') ! 1 = ustr ''wind''" by code_simp
  from last_line_wins[OF a dn ai wf l] show ?thesis unfolding f .
qed

subsection \<open>The status check\<close>

text \<open>
  Claim C7. The status check raises exactly when the status is not 200; what it raises
  carries the status code and the body text; and each fetcher raises what the check raises.
\<close>

theorem check_response_status_raises:
  "((\<exists>e. check_response_status r = Inl e) \<longleftrightarrow> status_code r \<noteq> 200) \<and>
   (\<forall>e. check_response_status r = Inl e \<longrightarrow>
      e = Exception (''Response status code:'' @ str_int (status_code r)
                       @ [CHR 0x0A, CHR 0x09] @ text_of r)) \<and>
   (\<forall>e env key sent.
      check_response_status r = Inl e \<and> post env (Get_all_data_types key) = Inr r \<longrightarrow>
      fst (get_all_data_types env key sent) = Inl e) \<and>
   (\<forall>e env key ids d1 d2 sent.
      check_response_status r = Inl e \<and> post env (Getdata key ids d1 d2) = Inr r \<longrightarrow>
      fst (get_data env key ids d1 d2 sent) = Inl e)"
  by (auto simp: check_response_status_def status_message_def get_all_data_types_def
        get_data_def Let_def)

theorem check_response_status_raises_witness:
  "check_response_status not_found =
     Inl (Exception (''Response status code:404'' @ [CHR 0x0A, CHR 0x09] @ ''Not Found'')) \<and>
   fst (get_all_data_types (env_example not_found) ''k'' []) =
     Inl (Exception (''Response status code:404'' @ [CHR 0x0A, CHR 0x09] @ ''Not Found'')) \<and>
   fst (get_data (env_example not_found) ''k'' [1] ''2024-01-01'' ''2024-01-02'' []) =
     Inl (Exception (''Response status code:404'' @ [CHR 0x0A, CHR 0x09] @ ''Not Found'')) \<and>
   check_response_status ok_catalog = Inr ()"
proof -
  have s: "status_code not_found \<noteq> 200" by (simp add: not_found_def)
  have m: "str_int (status_code not_found) = ''404''" unfolding not_found_def by code_simp
  have p1: "post (env_example not_found) (Get_all_data_types ''k'') = Inr not_found"
    by (simp add: env_example_def)
  have p2: "post (env_example not_found) (Getdata ''k'' [1] ''2024-01-01'' ''2024-01-02'') = Inr not_found"
    by (simp add: env_example_def)
  have t: "text_of not_found = ''Not Found''" by (simp add: not_found_def)
  from check_response_status_raises[of not_found] s obtain e where
    e: "check_response_status not_found = Inl e" by blast
  with check_response_status_raises[of not_found] m t
  have 1: "check_response_status not_found =
     Inl (Exception (''Response status code:404'' @ [CHR 0x0A, CHR 0x09] @ ''Not Found''))"
    by simp
  have 2: "fst (get_all_data_types (env_example not_found) ''k'' []) = Inl e"
    using check_response_status_raises[of not_found] p1 e by blast
  have 3: "fst (get_data (env_example not_found) ''k'' [1] ''2024-01-01'' ''2024-01-02'' []) = Inl e"
    using check_response_status_raises[of not_found] p2 e by blast
  have "status_code ok_catalog = 200" by (simp add: ok_catalog_def)
  with check_response_status_raises[of ok_catalog]
  have 4: "check_response_status ok_catalog = Inr ()"
    by (cases "check_response_status ok_catalog") auto
  from 1 2 3 4 e show ?thesis by simp
qed

subsection \<open>An unknown series id\<close>

lemma get_all_data_types_sent:
  "snd (get_all_data_types env key sent) = sent @ [Get_all_data_types key]"
  by (simp add: get_all_data_types_def Let_def split: sum.splits option.splits)

lemma data_names_of_unknown:
  assumes "i \<in> set ids" and "cat i = None"
  shows "\<exists>j \<in> set ids. cat j = None \<and> data_names_of cat ids = Inl (KeyError j)"
  using assms
proof (induction ids)
  case Nil
  then show ?case by simp
next
  case (Cons x xs)
  show ?case
  proof (cases "cat x")
    case None
    then show ?thesis by auto
  next
    case (Some name)
    with Cons.prems have "i \<in> set xs" by auto
    with Cons.IH Cons.prems(2) obtain j where "j \<in> set xs" "cat j = None"
      "data_names_of cat xs = Inl (KeyError j)" by blast
    with Some show ?thesis by auto
  qed
qed

text \<open>
  Claim C9. When the catalog was fetched and one of the ids given is not a key of it, the
  run ends with the KeyError of the first such id, and the only request sent is the one for
  the catalog: the data is not requested.
\<close>

theorem main_unknown_id:
  assumes "get_all_data_types env (api_key a) [] = (Inr (cat, w), sent)"
    and "i \<in> set (data_id a)" and "cat i = None"
  shows "\<exists>j \<in> set (data_id a). cat j = None \<and>
           main env a = (Inl (KeyError j), [Get_all_data_types (api_key a)])"
proof -
  have sent: "sent = [Get_all_data_types (api_key a)]"
    using get_all_data_types_sent[of env "api_key a" "[]"] assms(1) by simp
  from assms(2) have ne: "data_id a \<noteq> []" by auto
  from data_names_of_unknown[of i "data_id a" cat] assms(2,3) obtain j where
    j: "j \<in> set (data_id a)" "cat j = None" "data_names_of cat (data_id a) = Inl (KeyError j)"
    by blast
  then show ?thesis using assms(1) ne sent by (auto simp: main_def)
qed

lemma get_all_data_types_example:
  "get_all_data_types (env_example ok_catalog) ''k'' [] =
     (Inr ([1 \<mapsto> ustr ''load''], []), [Get_all_data_types ''k''])"
proof -
  have "decode_ascii (''api_id;data_name'' @ [CHR 0x0A] @ ''1;load'') =
        Some (join_lines [ustr ''api_id;data_name'', ustr ''1;load''])" by code_simp
  moreover have "str_split (cp (CHR 0x0A)) (join_lines [ustr ''api_id;data_name'', ustr ''1;load'']) =
        [ustr ''api_id;data_name'', ustr ''1;load'']" by code_simp
  moreover have "str_split (cp (CHR '';'')) (ustr ''api_id;data_name'') = [ustr ''api_id'', ustr ''data_name'']"
    by code_simp
  moreover have "str_split (cp (CHR '';'')) (ustr ''1;load'') = [ustr ''1'', ustr ''load'']" by code_simp
  moreover have "py_int example_db (ustr ''1'') = Some 1" by code_simp
  moreover have "index [ustr ''api_id'', ustr ''data_name''] (ustr ''data_name'') = Some 1" by code_simp
  moreover have "index [ustr ''api_id'', ustr ''data_name''] (ustr ''api_id'') = Some 0" by code_simp
  ultimately show ?thesis
    by (simp add: get_all_data_types_def env_example_def ok_catalog_def check_response_status_def
          parse_data_types_def data_lines_def data_line_def Let_def
          del: str_split.simps index.simps join_lines.simps)
qed

theorem main_unknown_id_witness:
  "main (env_example ok_catalog) args_example = (Inl (KeyError 2), [Get_all_data_types ''k''])"
proof -
  have g: "get_all_data_types (env_example ok_catalog) (api_key args_example) [] =
     (Inr ([1 \<mapsto> ustr ''load''], []), [Get_all_data_types ''k''])"
    using get_all_data_types_example by (simp add: args_example_def)
  have i: "2 \<in> set (data_id args_example)" by (simp add: args_example_def)
  have n: "[1 \<mapsto> ustr ''load''] (2::int) = None" by simp
  from main_unknown_id[OF g i n] show ?thesis
    by (auto simp: args_example_def)
qed

section \<open>Resampling\<close>

subsection \<open>The start of a bin\<close>

lemma bin_start_alt: "bin_start origin freq t = t - (t - origin) mod freq"
proof -
  have "(t - origin) div freq * freq = (t - origin) - (t - origin) mod freq"
    by (simp add: minus_mod_eq_div_mult)
  then show ?thesis by (simp add: bin_start_def)
qed

lemma bin_start_bounds:
  "0 < freq \<Longrightarrow> bin_start origin freq t \<le> t \<and> t < bin_start origin freq t + freq"
  using pos_mod_sign[of freq "t - origin"] pos_mod_bound[of freq "t - origin"]
  by (simp add: bin_start_alt)

lemma bin_start_aligned: "(bin_start origin freq t - origin) mod freq = 0"
  by (simp add: bin_start_def)

lemma bin_start_mono:
  "0 < freq \<Longrightarrow> t \<le> t' \<Longrightarrow> bin_start origin freq t \<le> bin_start origin freq t'"
  by (simp add: bin_start_def zdiv_mono1 mult_right_mono)

lemma bin_start_unique:
  assumes "0 < freq" and "(b - origin) mod freq = 0" and "b \<le> t" and "t < b + freq"
  shows "bin_start origin freq t = b"
proof -
  from assms(2) obtain q where q: "b - origin = q * freq"
    by (metis mod_eq_0_iff_dvd dvd_def mult.commute)
  define r where "r = t - b"
  have r: "0 \<le> r" "r < freq" using assms(3,4) by (simp_all add: r_def)
  have "t - origin = r + q * freq" using q by (simp add: r_def)
  then have "(t - origin) div freq = q"
    using r assms(1) by (simp add: div_pos_pos_trivial)
  then show ?thesis using q by (simp add: bin_start_def)
qed

lemma bin_start_eq_iff:
  assumes "0 < freq" and "(b - origin) mod freq = 0"
  shows "bin_start origin freq t = b \<longleftrightarrow> b \<le> t \<and> t < b + freq"
  using bin_start_unique[OF assms] bin_start_bounds[OF assms(1)] by blast

lemma bin_labels_set:
  assumes "0 < freq" and "ts \<noteq> []"
  defines "origin \<equiv> start_day ts"
  defines "first \<equiv> bin_start origin freq (Min (set ts))"
  defines "final \<equiv> bin_start origin freq (Max (set ts))"
  shows "set (bin_labels freq ts) = {b. first \<le> b \<and> b \<le> final \<and> (b - origin) mod freq = 0}"
proof -
  define q0 where "q0 = (Min (set ts) - origin) div freq"
  define q1 where "q1 = (Max (set ts) - origin) div freq"
  define m where "m = q1 - q0"
  have first: "first = origin + q0 * freq" and final: "final = origin + q1 * freq"
    by (simp_all add: first_def final_def bin_start_def q0_def q1_def)
  have mm: "Min (set ts) \<le> Max (set ts)" using assms(2) by simp
  have "q0 \<le> q1" unfolding q0_def q1_def
    using mm assms(1) by (intro zdiv_mono1) simp_all
  then have m0: "0 \<le> m" by (simp add: m_def)
  have fm: "final - first = m * freq"
    by (simp add: first final m_def left_diff_distrib)
  have d: "(final - first) div freq = m" using fm assms(1) by simp
  have lab: "bin_labels freq ts = map (\<lambda>k. first + int k * freq) [0 ..< Suc (nat m)]"
    unfolding bin_labels_def Let_def origin_def[symmetric] first_def[symmetric] final_def[symmetric] d ..
  have set_lab: "set (bin_labels freq ts) = (\<lambda>k. first + int k * freq) ` {0 ..< Suc (nat m)}"
    unfolding lab by (simp only: set_map set_upt)
  show ?thesis
  proof (intro set_eqI iffI)
    fix b assume "b \<in> set (bin_labels freq ts)"
    then obtain k where k: "k < Suc (nat m)" "b = first + int k * freq"
      unfolding set_lab by (auto simp del: of_nat_Suc)
    have "int k \<le> m" using k(1) m0 by simp
    then have "int k * freq \<le> m * freq" using assms(1) by (simp add: mult_right_mono)
    then have 1: "b \<le> final" using k(2) fm by simp
    have 2: "first \<le> b" using k(2) assms(1) by simp
    have "b - origin = (q0 + int k) * freq"
      using k(2) first by (simp add: distrib_right)
    then have 3: "(b - origin) mod freq = 0" by simp
    from 1 2 3 show "b \<in> {b. first \<le> b \<and> b \<le> final \<and> (b - origin) mod freq = 0}" by simp
  next
    fix b assume "b \<in> {b. first \<le> b \<and> b \<le> final \<and> (b - origin) mod freq = 0}"
    then have b: "first \<le> b" "b \<le> final" "(b - origin) mod freq = 0" by simp_all
    from b(3) have "freq dvd (b - origin)" by (simp add: mod_eq_0_iff_dvd)
    then obtain q where q: "b - origin = freq * q" by (rule dvdE)
    define j where "j = q - q0"
    have bj: "b = first + j * freq"
      using q first by (simp add: j_def algebra_simps)
    have "0 \<le> j * freq" using b(1) bj by simp
    then have j0: "0 \<le> j" using assms(1) by (simp add: zero_le_mult_iff)
    have "j * freq \<le> m * freq" using b(2) bj fm by simp
    then have jm: "j \<le> m" using assms(1) by (simp add: mult_le_cancel_right)
    have "b = first + int (nat j) * freq" using bj j0 by simp
    moreover have "nat j \<in> {0 ..< Suc (nat m)}" using jm j0 by simp
    ultimately show "b \<in> set (bin_labels freq ts)" unfolding set_lab by (rule image_eqI)
  qed
qed

lemma bin_labels_sorted:
  assumes "0 < freq"
  shows "sorted_wrt (<) (bin_labels freq ts)"
proof -
  have "sorted_wrt (<) (map (\<lambda>k. a + int k * freq) [0 ..< n])" for a n
    unfolding sorted_wrt_map using assms
    by (intro sorted_wrt_mono_rel[OF _ sorted_wrt_upt[of 0 n]]) simp
  then show ?thesis by (simp add: bin_labels_def Let_def del: upt_Suc)
qed

lemma fst_resample_mean:
  "rows df \<noteq> [] \<Longrightarrow>
   map fst (rows (resample_mean freq df)) = bin_labels freq (map fst (rows df))"
  by (simp add: resample_mean_def comp_def)

lemma row_resample_mean:
  assumes "rows df \<noteq> []" and "r \<in> set (rows (resample_mean freq df))"
  shows "fst r \<in> set (bin_labels freq (map fst (rows df)))"
    and "snd r = map (\<lambda>c. mean (column_values (in_bin freq (fst r) df) c)) [0 ..< length (columns df)]"
  using assms by (auto simp: resample_mean_def)

lemma quarter_hours_labels:
  assumes "ts = map (\<lambda>i. d * day + 900 * int i) [0 ..< 96]"
  shows "length (bin_labels four_hours ts) = 6"
proof -
  have s: "set ts = (\<lambda>i. d * day + 900 * int i) ` {0 ..< 96}"
    unfolding assms by (simp only: set_map set_upt)
  have mn: "Min (set ts) = d * day"
  proof (rule Min_eqI)
    show "finite (set ts)" by simp
    show "d * day \<le> y" if "y \<in> set ts" for y using that unfolding s by auto
    show "d * day \<in> set ts" unfolding s by (rule image_eqI[of _ _ 0]) simp_all
  qed
  have mx: "Max (set ts) = d * day + 85500"
  proof (rule Max_eqI)
    show "finite (set ts)" by simp
    show "y \<le> d * day + 85500" if "y \<in> set ts" for y using that unfolding s by auto
    show "d * day + 85500 \<in> set ts" unfolding s by (rule image_eqI[of _ _ 95]) simp_all
  qed
  have o: "start_day ts = d * day" by (simp add: start_day_def mn day_def)
  have f: "bin_start (d * day) four_hours (d * day) = d * day"
    by (simp add: bin_start_def)
  have l: "bin_start (d * day) four_hours (d * day + 85500) = d * day + 72000"
    by (simp add: bin_start_def four_hours_def)
  show ?thesis
    unfolding bin_labels_def Let_def o mn mx f l by (simp add: four_hours_def)
qed


lemma bin_labels_gap: "bin_labels four_hours [0, 28800] = [0, 14400, 28800]"
  by (simp add: bin_labels_def start_day_def bin_start_def four_hours_def day_def Let_def upt_rec)

subsection \<open>The rows of the result\<close>

text \<open>
  Claim C3 states that the result has exactly one row for each bin that holds a source row.
  The result also has a row for each empty bin between two bins that hold rows: two rows
  eight hours apart give three rows, the middle one for a bin without any source row.
\<close>

theorem resample_empty_bin_counterexample:
  "map fst (rows gap_frame) = [0, 28800] \<and>
   rows (in_bin four_hours 14400 gap_frame) = [] \<and>
   rows (resample_mean four_hours gap_frame) = [(0, [Some 1]), (14400, [None]), (28800, [Some 2])]"
proof -
  have r: "rows gap_frame = [(0, [Some 1]), (28800, [Some 2])]" by (simp add: gap_frame_def)
  have b: "rows (in_bin four_hours 14400 gap_frame) = []"
    by (simp add: in_bin_def r four_hours_def)
  have "rows (resample_mean four_hours gap_frame) =
        map (\<lambda>b. (b, map (\<lambda>c. mean (column_values (in_bin four_hours b gap_frame) c)) [0 ..< 1]))
            [0, 14400, 28800]"
    using bin_labels_gap by (simp add: resample_mean_def r) (simp add: gap_frame_def)
  also have "\<dots> = [(0, [Some 1]), (14400, [None]), (28800, [Some 2])]"
    by (simp add: in_bin_def column_values_def r four_hours_def mean_def cell_def)
  finally show ?thesis using r b by simp
qed

text \<open>
  Claim C3 as it holds: for a positive step and a frame with rows, the time stamps of the
  result are strictly increasing, they are exactly the bin starts from the bin of the
  earliest source row to the bin of the latest one (empty bins in between included), so the
  bin of every source row has its one row; and rows every 15 minutes over one day from
  midnight, with a step of four hours, give exactly 6 rows.
\<close>

theorem resample_rows:
  assumes "0 < freq" and "rows df \<noteq> []"
  shows "sorted_wrt (<) (map fst (rows (resample_mean freq df))) \<and>
         set (map fst (rows (resample_mean freq df))) =
           {b. bin_start (start_day (map fst (rows df))) freq (Min (fst ` set (rows df))) \<le> b \<and>
               b \<le> bin_start (start_day (map fst (rows df))) freq (Max (fst ` set (rows df))) \<and>
               (b - start_day (map fst (rows df))) mod freq = 0} \<and>
         (\<forall>r \<in> set (rows df).
            bin_start (start_day (map fst (rows df))) freq (fst r)
              \<in> set (map fst (rows (resample_mean freq df)))) \<and>
         (freq = four_hours \<and> (\<exists>d. map fst (rows df) = map (\<lambda>i. d * day + 900 * int i) [0 ..< 96])
            \<longrightarrow> length (rows (resample_mean freq df)) = 6)"
proof (intro conjI ballI impI)
  let ?ts = "map fst (rows df)"
  let ?o = "start_day ?ts"
  have ne: "?ts \<noteq> []" using assms(2) by simp
  have lab: "map fst (rows (resample_mean freq df)) = bin_labels freq ?ts"
    using assms(2) by (rule fst_resample_mean)
  show "sorted_wrt (<) (map fst (rows (resample_mean freq df)))"
    unfolding lab using assms(1) by (rule bin_labels_sorted)
  have st: "set (bin_labels freq ?ts) =
        {b. bin_start ?o freq (Min (set ?ts)) \<le> b \<and> b \<le> bin_start ?o freq (Max (set ?ts)) \<and>
            (b - ?o) mod freq = 0}"
    using assms(1) ne by (rule bin_labels_set)
  show "set (map fst (rows (resample_mean freq df))) =
           {b. bin_start ?o freq (Min (fst ` set (rows df))) \<le> b \<and>
               b \<le> bin_start ?o freq (Max (fst ` set (rows df))) \<and>
               (b - ?o) mod freq = 0}"
    unfolding lab st by simp
  {
    fix r assume r: "r \<in> set (rows df)"
    then have m: "fst r \<in> set ?ts" by simp
    have "Min (set ?ts) \<le> fst r" "fst r \<le> Max (set ?ts)"
      using m by (simp_all del: set_map)
    then have "bin_start ?o freq (Min (set ?ts)) \<le> bin_start ?o freq (fst r)"
      "bin_start ?o freq (fst r) \<le> bin_start ?o freq (Max (set ?ts))"
      using assms(1) by (simp_all add: bin_start_mono del: set_map)
    then show "bin_start ?o freq (fst r) \<in> set (map fst (rows (resample_mean freq df)))"
      unfolding lab st using bin_start_aligned[of ?o freq "fst r"] by simp
  }
  {
    assume a: "freq = four_hours \<and> (\<exists>d. ?ts = map (\<lambda>i. d * day + 900 * int i) [0 ..< 96])"
    then obtain d where "?ts = map (\<lambda>i. d * day + 900 * int i) [0 ..< 96]" by blast
    then have "length (bin_labels four_hours ?ts) = 6" by (rule quarter_hours_labels)
    then have "length (map fst (rows (resample_mean freq df))) = 6"
      unfolding lab using a by simp
    then show "length (rows (resample_mean freq df)) = 6" by simp
  }
qed

theorem resample_rows_witness:
  "map fst (rows (resample_mean four_hours gap_frame)) = [0, 14400, 28800] \<and>
   sorted_wrt (<) (map fst (rows (resample_mean four_hours gap_frame))) \<and>
   length (rows (resample_mean four_hours day_frame)) = 6"
proof -
  have f: "(0 :: int) < four_hours" by (simp add: four_hours_def)
  have g: "rows gap_frame \<noteq> []" by (simp add: gap_frame_def)
  have d: "rows day_frame \<noteq> []" by (simp add: day_frame_def upt_rec)
  have "map fst (rows day_frame) = map (\<lambda>i. 0 * day + 900 * int i) [0 ..< 96]"
    by (simp add: day_frame_def comp_def)
  then have e: "\<exists>d. map fst (rows day_frame) = map (\<lambda>i. d * day + 900 * int i) [0 ..< 96]"
    by (rule exI)
  have 1: "length (rows (resample_mean four_hours day_frame)) = 6"
    using resample_rows[OF f d] e by blast
  have 2: "sorted_wrt (<) (map fst (rows (resample_mean four_hours gap_frame)))"
    using resample_rows[OF f g] by blast
  have 3: "map fst (rows (resample_mean four_hours gap_frame)) = [0, 14400, 28800]"
    using fst_resample_mean[OF g, of four_hours] bin_labels_gap by (simp add: gap_frame_def)
  from 1 2 3 show ?thesis by simp
qed

subsection \<open>The cells of the result\<close>

text \<open>
  Claim C4. For a positive step, every cell of a row of the result is the arithmetic mean of
  the present values of its column among the source rows whose bin is the one of that row,
  and it is missing (not zero) when there is no present value among them.
\<close>

theorem resample_cell_mean:
  assumes "0 < freq" and "rows df \<noteq> []"
    and "r \<in> set (rows (resample_mean freq df))" and "c < length (columns df)"
  shows "cell r c =
     (let xs = present (map (\<lambda>s. cell s c)
                 (filter (\<lambda>s. bin_start (start_day (map fst (rows df))) freq (fst s) = fst r)
                         (rows df)))
      in if xs = [] then None else Some (sum_list xs / real (length xs)))"
proof -
  let ?ts = "map fst (rows df)"
  let ?o = "start_day ?ts"
  have ne: "?ts \<noteq> []" using assms(2) by simp
  have "fst r \<in> set (bin_labels freq ?ts)"
    using assms(2,3) by (rule row_resample_mean(1))
  then have al: "(fst r - ?o) mod freq = 0"
    unfolding bin_labels_set[OF assms(1) ne] by simp
  have same: "filter (\<lambda>s. fst r \<le> fst s \<and> fst s < fst r + freq) (rows df) =
              filter (\<lambda>s. bin_start ?o freq (fst s) = fst r) (rows df)"
    using bin_start_eq_iff[OF assms(1) al] by simp
  have "snd r = map (\<lambda>c. mean (column_values (in_bin freq (fst r) df) c)) [0 ..< length (columns df)]"
    using assms(2,3) by (rule row_resample_mean(2))
  then have "cell r c = mean (column_values (in_bin freq (fst r) df) c)"
    using assms(4) by (simp add: cell_def)
  then show ?thesis
    by (simp add: mean_def column_values_def in_bin_def same Let_def)
qed

theorem resample_cell_mean_witness:
  "rows (resample_mean four_hours bucket_frame) = [(0, [Some 2, None]), (14400, [Some 5, Some 2])] \<and>
   cell (0, [Some 2, None]) 0 = Some ((1 + 3) / 2) \<and>
   cell (0, [Some 2, None]) 1 = None"
proof -
  have f: "(0 :: int) < four_hours" by (simp add: four_hours_def)
  have r: "rows bucket_frame = [(0, [Some 1, None]), (3600, [Some 3, None]), (7200, [None, None]),
              (14400, [Some 5, Some 2])]"
    and c: "length (columns bucket_frame) = 2"
    by (simp_all add: bucket_frame_def)
  have ne: "rows bucket_frame \<noteq> []" by (simp add: r)
  have o: "start_day (map fst (rows bucket_frame)) = 0"
    by (simp add: r start_day_def)
  have l: "bin_labels four_hours (map fst (rows bucket_frame)) = [0, 14400]"
    by (simp add: r bin_labels_def start_day_def bin_start_def four_hours_def day_def Let_def upt_rec)
  have "rows (resample_mean four_hours bucket_frame) =
        map (\<lambda>b. (b, map (\<lambda>c. mean (column_values (in_bin four_hours b bucket_frame) c)) [0 ..< 2]))
            [0, 14400]"
    using l ne by (simp add: resample_mean_def c)
  also have "\<dots> = [(0, [Some 2, None]), (14400, [Some 5, Some 2])]"
    by (simp add: in_bin_def column_values_def r four_hours_def mean_def cell_def upt_rec)
  finally have out: "rows (resample_mean four_hours bucket_frame) =
        [(0, [Some 2, None]), (14400, [Some 5, Some 2])]" .
  then have m: "(0, [Some 2, None]) \<in> set (rows (resample_mean four_hours bucket_frame))" by simp
  have b: "bin_start 0 four_hours 0 = 0" "bin_start 0 four_hours 3600 = 0"
    "bin_start 0 four_hours 7200 = 0" "bin_start 0 four_hours 14400 = 14400"
    by (simp_all add: bin_start_def four_hours_def)
  have 0: "cell (0, [Some 2, None]) 0 = Some ((1 + 3) / 2)"
    using resample_cell_mean[OF f ne m, of 0] by (simp add: c o r b cell_def)
  have 1: "cell (0, [Some 2, None]) 1 = None"
    using resample_cell_mean[OF f ne m, of 1] by (simp add: c o r b cell_def)
  from out 0 1 show ?thesis by simp
qed

section \<open>Removing anomalies\<close>

subsection \<open>The row mask\<close>

lemma anomalies_mask_iff:
  "anomalies_mask df c r \<longleftrightarrow>
     (\<exists>x m s. cell r c = Some x \<and> mean (column_values df c) = Some m \<and>
              std (column_values df c) = Some s \<and> \<bar>x - m\<bar> < s * 10)"
  by (auto simp: anomalies_mask_def Let_def nan_less_def nan_abs_def nan_sub_def nan_mult_def
      split: option.splits)

lemma less_ten_sqrt: "0 \<le> v \<Longrightarrow> (\<bar>d\<bar> < sqrt v * 10) = (d\<^sup>2 < 100 * v)"
proof -
  assume "0 \<le> v"
  have "sqrt v * 10 = sqrt (100 * v)"
    by (simp add: real_sqrt_mult)
  moreover have "\<bar>d\<bar> = sqrt (d\<^sup>2)" by simp
  ultimately show ?thesis by (simp only: real_sqrt_less_iff)
qed

lemma missing_removed:
  "cell r c = None \<Longrightarrow> r \<notin> set (rows (remove_anomalies_col df c))"
  by (simp add: remove_anomalies_col_def anomalies_mask_iff)

lemma zero_std_removes_all:
  "std (column_values df c) = Some 0 \<Longrightarrow> rows (remove_anomalies_col df c) = []"
  by (simp add: remove_anomalies_col_def anomalies_mask_iff)

lemma fst_anomalies_step: "fst (anomalies_step c st) = remove_anomalies_col (fst st) c"
  by (simp add: anomalies_step_def Let_def)

lemma remove_anomalies_cols_two:
  "fst (remove_anomalies_cols [a, b] df) = remove_anomalies_col (remove_anomalies_col df a) b"
  by (simp add: remove_anomalies_cols_def fst_anomalies_step)

text \<open>
  Every pass drops the rows whose cell is missing in its column, so no missing cell is left
  after the loop, and the forward fill of Example 6 finds nothing to fill.
\<close>

lemma rows_anomalies_step: "set (rows (fst (anomalies_step c st))) \<subseteq> set (rows (fst st))"
  by (auto simp: fst_anomalies_step remove_anomalies_col_def)

lemma rows_fold_anomalies_step:
  "set (rows (fst (fold anomalies_step cs st))) \<subseteq> set (rows (fst st))"
proof (induction cs arbitrary: st)
  case Nil
  show ?case by simp
next
  case (Cons x xs)
  show ?case using Cons.IH[of "anomalies_step x st"] rows_anomalies_step[of x st] by auto
qed

lemma fold_anomalies_step_present:
  "c \<in> set cs \<Longrightarrow> r \<in> set (rows (fst (fold anomalies_step cs st))) \<Longrightarrow> cell r c \<noteq> None"
proof (induction cs arbitrary: st)
  case Nil
  then show ?case by simp
next
  case (Cons x xs)
  show ?case
  proof (cases "c \<in> set xs")
    case True
    then show ?thesis using Cons.IH[of "anomalies_step x st"] Cons.prems(2) by simp
  next
    case False
    with Cons.prems(1) have "c = x" by simp
    have "r \<in> set (rows (fst (anomalies_step x st)))"
      using Cons.prems(2) rows_fold_anomalies_step[of xs "anomalies_step x st"] by auto
    then show ?thesis
      using missing_removed[of r c "fst st"] \<open>c = x\<close> by (auto simp: fst_anomalies_step)
  qed
qed

lemma remove_anomalies_present:
  "c < length (columns df) \<Longrightarrow> r \<in> set (rows (fst (remove_anomalies df))) \<Longrightarrow> cell r c \<noteq> None"
  using fold_anomalies_step_present[of c "[0 ..< length (columns df)]" r "(df, [])"]
  by (simp add: remove_anomalies_def remove_anomalies_cols_def)

subsection \<open>A column without variance\<close>

text \<open>
  Claim C1 states that a column whose present values have the standard deviation zero
  removes no row. The mask keeps a row only where the deviation is strictly below
  \<^verbatim>\<open>max_dev\<close>, and no deviation is below zero: on the frame of three equal values the
  standard deviation is zero, the pass for the column removes all three rows, and the run
  reports three anomalies.
\<close>

theorem zero_sigma_removes_every_row:
  "std (column_values flat_frame 0) = Some 0 \<and>
   length (rows flat_frame) = 3 \<and>
   rows (remove_anomalies_col flat_frame 0) = [] \<and>
   snd (remove_anomalies flat_frame) = [Removed 3 ''a'']"
proof -
  have s: "std (column_values flat_frame 0) = Some 0"
    by (simp add: std_def column_values_def flat_frame_def cell_def Let_def)
  have r: "rows (remove_anomalies_col flat_frame 0) = []"
    using s by (rule zero_std_removes_all)
  have "snd (remove_anomalies flat_frame) = [Removed 3 ''a'']"
    using r by (simp add: remove_anomalies_def remove_anomalies_cols_def anomalies_step_def
        Let_def flat_frame_def)
  with s r show ?thesis by (simp add: flat_frame_def)
qed

subsection \<open>A column with a missing value\<close>

text \<open>
  Claim C2 states that a pass removes exactly the rows whose value is present and at least
  ten standard deviations from the mean, and never a row whose value is missing. A
  comparison with a missing value is false, so the mask drops the row: on the frame with
  the values 1, missing, 2, 3 the mean is 2, the standard deviation is 1, no value is an
  outlier, and the row with the missing value is removed.
\<close>

theorem missing_value_row_removed:
  "mean (column_values missing_frame 0) = Some 2 \<and>
   std (column_values missing_frame 0) = Some 1 \<and>
   cell (1, [None]) 0 = None \<and>
   rows (remove_anomalies_col missing_frame 0) = [(0, [Some 1]), (2, [Some 2]), (3, [Some 3])]"
proof -
  have m: "mean (column_values missing_frame 0) = Some 2"
    by (simp add: mean_def column_values_def missing_frame_def cell_def Let_def)
  have s: "std (column_values missing_frame 0) = Some 1"
    by (simp add: std_def column_values_def missing_frame_def cell_def Let_def power2_eq_square)
  have k: "anomalies_mask missing_frame 0 r \<longleftrightarrow> (\<exists>x. cell r 0 = Some x \<and> \<bar>x - 2\<bar> < 10)" for r
    by (simp add: anomalies_mask_iff m s)
  have rs: "rows missing_frame = [(0, [Some 1]), (1, [None]), (2, [Some 2]), (3, [Some 3])]"
    by (simp add: missing_frame_def)
  have "rows (remove_anomalies_col missing_frame 0) = [(0, [Some 1]), (2, [Some 2]), (3, [Some 3])]"
    by (simp add: remove_anomalies_col_def rs k cell_def)
  with m s show ?thesis by (simp add: cell_def)
qed

subsection \<open>The order of the columns\<close>

lemma present_replicate: "present (replicate n (Some x) @ vs) = replicate n x @ present vs"
  by (induction n) simp_all

lemma column_base_rows: "c < 2 \<Longrightarrow> map (\<lambda>r. cell r c) base_rows = replicate 100 (Some 0)"
proof -
  assume c: "c < 2"
  have "cell (int i, [Some 0, Some 0]) c = Some 0" for i
    using c by (cases c) (simp_all add: cell_def)
  then have "map (\<lambda>r. cell r c) base_rows = map (\<lambda>i. Some 0) [0 ..< 100]"
    by (simp add: base_rows_def)
  then show ?thesis by (simp add: map_replicate_const)
qed

lemma cell_base_rows: "c < 2 \<Longrightarrow> r \<in> set base_rows \<Longrightarrow> cell r c = Some 0"
  by (cases c) (auto simp: base_rows_def cell_def)

lemma fst_base_rows: "map fst base_rows = map int [0 ..< 100]"
  by (simp add: base_rows_def comp_def)

lemma stats_102:
  assumes "present vs = replicate 100 0 @ [a, b]" and "a + b = 1" and "a * b = 0"
  shows "mean vs = Some (1 / 102)" and "std vs = Some (sqrt (1 / 102))"
proof -
  show "mean vs = Some (1 / 102)"
    using assms(1,2) by (simp add: mean_def Let_def sum_list_replicate)
  have ab: "a\<^sup>2 + b\<^sup>2 = 1"
  proof -
    have "a\<^sup>2 + b\<^sup>2 = (a + b)\<^sup>2 - 2 * (a * b)" by (simp add: power2_sum)
    then show ?thesis using assms(2,3) by simp
  qed
  have "sum_list (map (\<lambda>x. (x - 1 / 102)\<^sup>2) (replicate 100 (0::real) @ [a, b])) =
        100 * (1 / 102)\<^sup>2 + ((a - 1 / 102)\<^sup>2 + (b - 1 / 102)\<^sup>2)"
    by (simp add: sum_list_replicate)
  also have "(a - 1 / 102)\<^sup>2 + (b - 1 / 102)\<^sup>2
             = (a\<^sup>2 + b\<^sup>2) - (a + b) / 51 + 2 * (1 / 102)\<^sup>2"
    by (simp add: power2_eq_square algebra_simps)
  finally have "sum_list (map (\<lambda>x. (x - 1 / 102)\<^sup>2) (replicate 100 0 @ [a, b])) = 101 / 102"
    using ab assms(2) by (simp add: power2_eq_square)
  then show "std vs = Some (sqrt (1 / 102))"
    using assms(1,2) by (simp add: std_def Let_def sum_list_replicate)
qed

lemma stats_101:
  assumes "present vs = replicate 100 0 @ [1]"
  shows "mean vs = Some (1 / 101)" and "std vs = Some (sqrt (1 / 101))"
proof -
  show "mean vs = Some (1 / 101)"
    using assms by (simp add: mean_def Let_def sum_list_replicate)
  have "sum_list (map (\<lambda>x. (x - 1 / 101)\<^sup>2) (replicate 100 0 @ [1::real])) = 100 / 101"
    by (simp add: sum_list_replicate power2_eq_square)
  then show "std vs = Some (sqrt (1 / 101))"
    using assms by (simp add: std_def Let_def sum_list_replicate)
qed

lemma mask_102:
  assumes "present (column_values df c) = replicate 100 0 @ [a, b]" and "a + b = 1" and "a * b = 0"
  shows "anomalies_mask df c r \<longleftrightarrow> (\<exists>x. cell r c = Some x \<and> (x - 1 / 102)\<^sup>2 < 100 / 102)"
proof -
  have "anomalies_mask df c r \<longleftrightarrow> (\<exists>x. cell r c = Some x \<and> \<bar>x - 1 / 102\<bar> < sqrt (1 / 102) * 10)"
    unfolding anomalies_mask_iff stats_102[OF assms] by blast
  also have "\<dots> \<longleftrightarrow> (\<exists>x. cell r c = Some x \<and> (x - 1 / 102)\<^sup>2 < 100 * (1 / 102))"
    by (subst less_ten_sqrt) simp_all
  finally show ?thesis by simp
qed

lemma mask_101:
  assumes "present (column_values df c) = replicate 100 0 @ [1]"
  shows "anomalies_mask df c r \<longleftrightarrow> (\<exists>x. cell r c = Some x \<and> (x - 1 / 101)\<^sup>2 < 100 / 101)"
proof -
  have "anomalies_mask df c r \<longleftrightarrow> (\<exists>x. cell r c = Some x \<and> \<bar>x - 1 / 101\<bar> < sqrt (1 / 101) * 10)"
    unfolding anomalies_mask_iff stats_101[OF assms] by blast
  also have "\<dots> \<longleftrightarrow> (\<exists>x. cell r c = Some x \<and> (x - 1 / 101)\<^sup>2 < 100 * (1 / 101))"
    by (subst less_ten_sqrt) simp_all
  finally show ?thesis by simp
qed

lemma filter_base_rows:
  "(\<And>r. r \<in> set base_rows \<Longrightarrow> P r) \<Longrightarrow> filter P base_rows = base_rows"
  by simp

lemma step_two_first:
  assumes "rows df = base_rows @ [r1, r2]" and "c < 2"
    and "cell r1 c = Some 1" and "cell r2 c = Some 0"
  shows "rows (remove_anomalies_col df c) = base_rows @ [r2]"
    and "outlier df c r1"
proof -
  have p: "present (column_values df c) = replicate 100 0 @ [1, 0]"
    using assms by (simp add: column_values_def column_base_rows present_replicate)
  have m: "anomalies_mask df c r \<longleftrightarrow> (\<exists>x. cell r c = Some x \<and> (x - 1 / 102)\<^sup>2 < 100 / 102)" for r
    using mask_102[OF p] by simp
  have b: "\<And>r. r \<in> set base_rows \<Longrightarrow> anomalies_mask df c r"
    using assms(2) by (simp add: m cell_base_rows power2_eq_square)
  show "rows (remove_anomalies_col df c) = base_rows @ [r2]"
    unfolding remove_anomalies_col_def using assms(3,4)
    by (simp add: assms(1) filter_base_rows[OF b] m power2_eq_square)
  have "\<bar>1 - 1 / 102\<bar> \<ge> 10 * sqrt (1 / 102)"
    using less_ten_sqrt[of "1 / 102" "1 - 1 / 102"] by (simp add: power2_eq_square)
  then show "outlier df c r1"
    using stats_102[OF p] assms(3) by (simp add: outlier_def)
qed

lemma step_two_second:
  assumes "rows df = base_rows @ [r1, r2]" and "c < 2"
    and "cell r1 c = Some 0" and "cell r2 c = Some 1"
  shows "rows (remove_anomalies_col df c) = base_rows @ [r1]"
    and "outlier df c r2"
proof -
  have p: "present (column_values df c) = replicate 100 0 @ [0, 1]"
    using assms by (simp add: column_values_def column_base_rows present_replicate)
  have m: "anomalies_mask df c r \<longleftrightarrow> (\<exists>x. cell r c = Some x \<and> (x - 1 / 102)\<^sup>2 < 100 / 102)" for r
    using mask_102[OF p] by simp
  have b: "\<And>r. r \<in> set base_rows \<Longrightarrow> anomalies_mask df c r"
    using assms(2) by (simp add: m cell_base_rows power2_eq_square)
  show "rows (remove_anomalies_col df c) = base_rows @ [r1]"
    unfolding remove_anomalies_col_def using assms(3,4)
    by (simp add: assms(1) filter_base_rows[OF b] m power2_eq_square)
  have "\<bar>1 - 1 / 102\<bar> \<ge> 10 * sqrt (1 / 102)"
    using less_ten_sqrt[of "1 / 102" "1 - 1 / 102"] by (simp add: power2_eq_square)
  then show "outlier df c r2"
    using stats_102[OF p] assms(4) by (simp add: outlier_def)
qed

lemma step_one:
  assumes "rows df = base_rows @ [r]" and "c < 2" and "cell r c = Some 1"
  shows "rows (remove_anomalies_col df c) = base_rows @ [r]"
proof -
  have p: "present (column_values df c) = replicate 100 0 @ [1]"
    using assms by (simp add: column_values_def column_base_rows present_replicate)
  have m: "anomalies_mask df c r \<longleftrightarrow> (\<exists>x. cell r c = Some x \<and> (x - 1 / 101)\<^sup>2 < 100 / 101)" for r
    using mask_101[OF p] by simp
  have b: "\<And>r. r \<in> set base_rows \<Longrightarrow> anomalies_mask df c r"
    using assms(2) by (simp add: m cell_base_rows power2_eq_square)
  show ?thesis
    unfolding remove_anomalies_col_def using assms(3)
    by (simp add: assms(1) filter_base_rows[OF b] m power2_eq_square)
qed

lemma upt_two: "[0 ..< 2] = [0, 1 :: nat]"
  by (simp add: numeral_2_eq_2)

lemma time_not_base: "100 \<le> t \<Longrightarrow> (t, cs) \<notin> set base_rows"
  by (auto simp: base_rows_def)

text \<open>
  Claim C6. The loop filters column after column, and there is a frame with two columns,
  each with an outlier row, at different time stamps, for which the rows that remain depend
  on the order of the columns: both for the passes taken in the orders 0, 1 and 1, 0 on the
  same frame, and for the loop run on the frame and on the frame with its columns exchanged.
\<close>

theorem column_order_matters:
  "\<exists>df. length (columns df) = 2 \<and> distinct (map fst (rows df)) \<and>
     (\<exists>r s. r \<in> set (rows df) \<and> s \<in> set (rows df) \<and> fst r \<noteq> fst s \<and>
            outlier df 0 r \<and> outlier df 1 s) \<and>
     set (rows (fst (remove_anomalies_cols [0, 1] df))) \<noteq>
       set (rows (fst (remove_anomalies_cols [1, 0] df))) \<and>
     set (map fst (rows (fst (remove_anomalies df)))) \<noteq>
       set (map fst (rows (fst (remove_anomalies (swap_columns df)))))"
proof -
  let ?T = two_outliers
  let ?r = "(100 :: int, [Some (1 :: real), Some 0])"
  let ?s = "(101 :: int, [Some (0 :: real), Some 1])"
  let ?r' = "(100 :: int, [Some (0 :: real), Some 1])"
  let ?s' = "(101 :: int, [Some (1 :: real), Some 0])"
  have rows: "rows ?T = base_rows @ [?r, ?s]" by (simp add: two_outliers_def)
  have cols: "length (columns ?T) = 2" by (simp add: two_outliers_def)
  have dist: "distinct (map fst (rows ?T))"
    by (auto simp: rows fst_base_rows distinct_map inj_on_def)
  have a: "rows (remove_anomalies_col ?T 0) = base_rows @ [?s]" and oa: "outlier ?T 0 ?r"
    using step_two_first[OF rows, of 0] by (simp_all add: cell_def)
  have b: "rows (remove_anomalies_col ?T 1) = base_rows @ [?r]" and ob: "outlier ?T 1 ?s"
    using step_two_second[OF rows, of 1] by (simp_all add: cell_def)
  have ab: "rows (remove_anomalies_col (remove_anomalies_col ?T 0) 1) = base_rows @ [?s]"
    using step_one[OF a, of 1] by (simp add: cell_def)
  have ba: "rows (remove_anomalies_col (remove_anomalies_col ?T 1) 0) = base_rows @ [?r]"
    using step_one[OF b, of 0] by (simp add: cell_def)
  have "?s \<notin> set (base_rows @ [?r])" using time_not_base[of 101] by simp
  moreover have "?s \<in> set (base_rows @ [?s])" by simp
  ultimately have "set (base_rows @ [?s]) \<noteq> set (base_rows @ [?r])" by metis
  then have 1: "set (rows (fst (remove_anomalies_cols [0, 1] ?T))) \<noteq>
                set (rows (fst (remove_anomalies_cols [1, 0] ?T)))"
    unfolding remove_anomalies_cols_two ab ba .
  have ca: "columns (remove_anomalies_col df c) = columns df" for df c
    by (simp add: remove_anomalies_col_def)
  have ra: "fst (remove_anomalies df) = remove_anomalies_col (remove_anomalies_col df 0) 1"
    if "length (columns df) = 2" for df
    unfolding remove_anomalies_def that upt_two remove_anomalies_cols_two ..
  have t: "map fst (rows (fst (remove_anomalies ?T))) = map int [0 ..< 100] @ [101]"
    unfolding ra[OF cols] ab by (simp add: fst_base_rows)
  have "map (\<lambda>r. (fst r, rev (snd r))) base_rows = base_rows"
    by (simp add: base_rows_def)
  then have rows': "rows (swap_columns ?T) = base_rows @ [?r', ?s']"
    by (simp add: swap_columns_def rows)
  have cols': "length (columns (swap_columns ?T)) = 2"
    by (simp add: swap_columns_def cols)
  have a': "rows (remove_anomalies_col (swap_columns ?T) 0) = base_rows @ [?r']"
    using step_two_second[OF rows', of 0] by (simp add: cell_def)
  have ab': "rows (remove_anomalies_col (remove_anomalies_col (swap_columns ?T) 0) 1) = base_rows @ [?r']"
    using step_one[OF a', of 1] by (simp add: cell_def)
  have t': "map fst (rows (fst (remove_anomalies (swap_columns ?T)))) = map int [0 ..< 100] @ [100]"
    unfolding ra[OF cols'] ab' by (simp add: fst_base_rows)
  have "(101 :: int) \<in> set (map int [0 ..< 100] @ [101])" by simp
  moreover have "(101 :: int) \<notin> set (map int [0 ..< 100] @ [100])" by auto
  ultimately have "set (map int [0 ..< 100] @ [101]) \<noteq> set (map int [0 ..< 100] @ [100])"
    by metis
  then have 2: "set (map fst (rows (fst (remove_anomalies ?T)))) \<noteq>
           set (map fst (rows (fst (remove_anomalies (swap_columns ?T)))))"
    unfolding t t' .
  have 3: "\<exists>r s. r \<in> set (rows ?T) \<and> s \<in> set (rows ?T) \<and> fst r \<noteq> fst s \<and>
            outlier ?T 0 r \<and> outlier ?T 1 s"
    using oa ob by (intro exI[of _ ?r] exI[of _ ?s]) (simp add: rows)
  from cols dist 1 2 3 show ?thesis by (intro exI[of _ ?T]) blast
qed

section \<open>Forward fill\<close>

lemma length_ffill_rows: "length (ffill_rows n prev rs) = length rs"
  by (induction rs arbitrary: prev) (simp_all add: Let_def)

lemma fst_ffill_rows: "map fst (ffill_rows n prev rs) = map fst rs"
  by (induction rs arbitrary: prev) (simp_all add: Let_def)

lemma cells_ffill_rows: "r \<in> set (ffill_rows n prev rs) \<Longrightarrow> length (snd r) = n"
  by (induction rs arbitrary: prev) (auto simp: Let_def)

lemma column_ffill_rows:
  "length prev = n \<Longrightarrow> c < n \<Longrightarrow>
   map (\<lambda>r. cell r c) (ffill_rows n prev rs) = column_ffill (prev ! c) (map (\<lambda>r. cell r c) rs)"
proof (induction rs arbitrary: prev)
  case Nil
  show ?case by simp
next
  case (Cons r rs)
  let ?filled = "map (\<lambda>c. case cell r c of None \<Rightarrow> prev ! c | Some x \<Rightarrow> Some x) [0 ..< n]"
  have l: "length ?filled = n" by simp
  have f: "?filled ! c = (case cell r c of None \<Rightarrow> prev ! c | Some x \<Rightarrow> Some x)"
    using Cons.prems(2) by (simp split: option.splits)
  have "cell (fst r, ?filled) c = ?filled ! c"
    using Cons.prems(2) by (simp add: cell_def)
  then show ?case
    using Cons.IH[OF l Cons.prems(2)] f by (simp add: Let_def)
qed

lemma column_ffill_nth:
  "i < length vs \<Longrightarrow>
   column_ffill p vs ! i =
     (case vs ! i of
        Some x \<Rightarrow> Some x
      | None \<Rightarrow> (if i = 0 then p else column_ffill p vs ! (i - 1)))"
proof (induction vs arbitrary: p i)
  case Nil
  then show ?case by simp
next
  case (Cons v vs)
  show ?case
  proof (cases i)
    case 0
    then show ?thesis by (simp add: Let_def split: option.splits)
  next
    case (Suc j)
    then have j: "j < length vs" using Cons.prems by simp
    let ?f = "case v of None \<Rightarrow> p | Some x \<Rightarrow> Some x"
    have "column_ffill p (v # vs) ! i = column_ffill ?f vs ! j"
      using Suc by (simp add: Let_def)
    also have "\<dots> = (case vs ! j of Some x \<Rightarrow> Some x
                      | None \<Rightarrow> (if j = 0 then ?f else column_ffill ?f vs ! (j - 1)))"
      using Cons.IH[OF j] .
    also have "\<dots> = (case (v # vs) ! i of Some x \<Rightarrow> Some x
                      | None \<Rightarrow> (if i = 0 then p else column_ffill p (v # vs) ! (i - 1)))"
      using Suc by (cases j) (auto simp: Let_def split: option.splits)
    finally show ?thesis .
  qed
qed

lemma length_column_ffill: "length (column_ffill p vs) = length vs"
  by (induction vs arbitrary: p) (simp_all add: Let_def)

lemma column_ffill_Some_iff:
  "i < length vs \<Longrightarrow>
   column_ffill p vs ! i = Some x \<longleftrightarrow>
     vs ! i = Some x \<or>
     (vs ! i = None \<and>
       ((\<exists>j<i. vs ! j = Some x \<and> (\<forall>k. j < k \<and> k < i \<longrightarrow> vs ! k = None)) \<or>
        ((\<forall>k<i. vs ! k = None) \<and> p = Some x)))"
proof (induction i)
  case 0
  then show ?case by (simp add: column_ffill_nth split: option.splits)
next
  case (Suc i)
  then have i: "i < length vs" by simp
  show ?case
  proof (cases "vs ! Suc i")
    case (Some y)
    then show ?thesis using Suc.prems by (simp add: column_ffill_nth)
  next
    case None
    have step: "column_ffill p vs ! Suc i = column_ffill p vs ! i"
      using None Suc.prems by (simp add: column_ffill_nth)
    show ?thesis
    proof (cases "vs ! i")
      case (Some y)
      have "(\<exists>j<Suc i. vs ! j = Some x \<and> (\<forall>k. j < k \<and> k < Suc i \<longrightarrow> vs ! k = None)) \<longleftrightarrow> y = x"
      proof
        assume "\<exists>j<Suc i. vs ! j = Some x \<and> (\<forall>k. j < k \<and> k < Suc i \<longrightarrow> vs ! k = None)"
        then obtain j where j: "j < Suc i" "vs ! j = Some x" "\<forall>k. j < k \<and> k < Suc i \<longrightarrow> vs ! k = None"
          by blast
        show "y = x"
        proof (cases "j = i")
          case True
          with j Some show ?thesis by simp
        next
          case False
          with j have "vs ! i = None" by auto
          with Some show ?thesis by simp
        qed
      next
        assume "y = x"
        with Some show "\<exists>j<Suc i. vs ! j = Some x \<and> (\<forall>k. j < k \<and> k < Suc i \<longrightarrow> vs ! k = None)"
          by (intro exI[of _ i]) auto
      qed
      moreover have "\<not> (\<forall>k<Suc i. vs ! k = None)" using Some by auto
      moreover have "column_ffill p vs ! i = Some x \<longleftrightarrow> y = x"
        using Some i by (simp add: column_ffill_nth)
      ultimately show ?thesis using None step by auto
    next
      case N: None
      have a: "(\<exists>j<Suc i. vs ! j = Some x \<and> (\<forall>k. j < k \<and> k < Suc i \<longrightarrow> vs ! k = None)) \<longleftrightarrow>
               (\<exists>j<i. vs ! j = Some x \<and> (\<forall>k. j < k \<and> k < i \<longrightarrow> vs ! k = None))"
        (is "?L \<longleftrightarrow> ?R")
      proof
        assume ?L
        then obtain j where j: "j < Suc i" "vs ! j = Some x" "\<forall>k. j < k \<and> k < Suc i \<longrightarrow> vs ! k = None"
          by blast
        with N have "j \<noteq> i" by auto
        with j show ?R by (intro exI[of _ j]) auto
      next
        assume ?R
        then obtain j where j: "j < i" "vs ! j = Some x" "\<forall>k. j < k \<and> k < i \<longrightarrow> vs ! k = None"
          by blast
        have "\<forall>k. j < k \<and> k < Suc i \<longrightarrow> vs ! k = None"
          using j(3) N by (auto simp: less_Suc_eq)
        with j show ?L by (intro exI[of _ j]) auto
      qed
      have b: "(\<forall>k<Suc i. vs ! k = None) \<longleftrightarrow> (\<forall>k<i. vs ! k = None)"
        using N by (auto simp: less_Suc_eq)
      show ?thesis using Suc.IH[OF i] None N step a b by simp
    qed
  qed
qed

text \<open>
  Claim C5. The forward fill removes no row and keeps the time stamps and the columns. A
  cell of the result holds \<open>x\<close> exactly when the cell held \<open>x\<close> before, or the cell was
  missing and \<open>x\<close> is the most recent value above it in the same column (some earlier row
  holds \<open>x\<close> and every row in between is missing there). So a present value is kept, a
  missing cell below a value takes the nearest one, and a missing cell with no value above
  it stays missing.
\<close>

theorem forward_fill:
  assumes "i < length (rows df)" and "c < length (columns df)"
  shows "length (rows (fillna_ffill df)) = length (rows df) \<and>
         map fst (rows (fillna_ffill df)) = map fst (rows df) \<and>
         columns (fillna_ffill df) = columns df \<and>
         (cell (rows (fillna_ffill df) ! i) c = Some x \<longleftrightarrow>
            cell (rows df ! i) c = Some x \<or>
            (cell (rows df ! i) c = None \<and>
             (\<exists>j<i. cell (rows df ! j) c = Some x \<and>
                    (\<forall>k. j < k \<and> k < i \<longrightarrow> cell (rows df ! k) c = None))))"
proof -
  let ?n = "length (columns df)"
  let ?vs = "map (\<lambda>r. cell r c) (rows df)"
  have col: "map (\<lambda>r. cell r c) (rows (fillna_ffill df)) = column_ffill None ?vs"
    using column_ffill_rows[of "replicate ?n None" ?n c "rows df"] assms(2)
    by (simp add: fillna_ffill_def)
  have len: "length (rows (fillna_ffill df)) = length (rows df)"
    by (simp add: fillna_ffill_def length_ffill_rows)
  have "cell (rows (fillna_ffill df) ! i) c = map (\<lambda>r. cell r c) (rows (fillna_ffill df)) ! i"
    using assms(1) len by simp
  then have out: "cell (rows (fillna_ffill df) ! i) c = column_ffill None ?vs ! i"
    using col by simp
  have iv: "i < length ?vs" using assms(1) by simp
  have "column_ffill None ?vs ! i = Some x \<longleftrightarrow>
          cell (rows df ! i) c = Some x \<or>
            (cell (rows df ! i) c = None \<and>
             (\<exists>j<i. cell (rows df ! j) c = Some x \<and>
                    (\<forall>k. j < k \<and> k < i \<longrightarrow> cell (rows df ! k) c = None)))"
    unfolding column_ffill_Some_iff[OF iv] using assms(1) by auto
  with out len show ?thesis
    by (simp add: fillna_ffill_def fst_ffill_rows)
qed

theorem forward_fill_witness:
  "length (rows (fillna_ffill ffill_example)) = 5 \<and>
   cell (rows (fillna_ffill ffill_example) ! 2) 0 = Some 1 \<and>
   cell (rows (fillna_ffill ffill_example) ! 4) 0 = Some 2 \<and>
   cell (rows (fillna_ffill ffill_example) ! 1) 1 = None"
proof -
  have l: "length (rows ffill_example) = 5" and c: "length (columns ffill_example) = 2"
    by (simp_all add: ffill_example_def)
  have r0: "cell (rows ffill_example ! 0) 0 = Some 1" "cell (rows ffill_example ! 0) 1 = None"
    and r1: "cell (rows ffill_example ! 1) 0 = None" "cell (rows ffill_example ! 1) 1 = None"
    and r2: "cell (rows ffill_example ! 2) 0 = None"
    and r3: "cell (rows ffill_example ! 3) 0 = Some 2"
    and r4: "cell (rows ffill_example ! 4) 0 = None"
    by (simp_all add: ffill_example_def cell_def)
  have a: "length (rows (fillna_ffill ffill_example)) = 5"
    using forward_fill[of 0 ffill_example 0] l c by simp
  have "\<exists>j<2. cell (rows ffill_example ! j) 0 = Some 1 \<and>
           (\<forall>k. j < k \<and> k < 2 \<longrightarrow> cell (rows ffill_example ! k) 0 = None)"
  proof (intro exI[of _ 0] conjI allI impI)
    fix k :: nat assume "0 < k \<and> k < 2"
    then have "k = 1" by simp
    then show "cell (rows ffill_example ! k) 0 = None" using r1 by simp
  qed (simp_all add: r0)
  then have b: "cell (rows (fillna_ffill ffill_example) ! 2) 0 = Some 1"
    using forward_fill[of 2 ffill_example 0 1] l c r2 by simp
  have "\<exists>j<4. cell (rows ffill_example ! j) 0 = Some 2 \<and>
           (\<forall>k. j < k \<and> k < 4 \<longrightarrow> cell (rows ffill_example ! k) 0 = None)"
    by (intro exI[of _ 3]) (auto simp: r3)
  then have d: "cell (rows (fillna_ffill ffill_example) ! 4) 0 = Some 2"
    using forward_fill[of 4 ffill_example 0 2] l c r4 by simp
  have "cell (rows (fillna_ffill ffill_example) ! 1) 1 \<noteq> Some x" for x
  proof -
    have "\<not> (\<exists>j<1. cell (rows ffill_example ! j) 1 = Some x \<and>
           (\<forall>k. j < k \<and> k < 1 \<longrightarrow> cell (rows ffill_example ! k) 1 = None))"
      using r0 by simp
    then show ?thesis
      using forward_fill[of 1 ffill_example 1 x] l c r1 by simp
  qed
  then have e: "cell (rows (fillna_ffill ffill_example) ! 1) 1 = None"
    by (cases "cell (rows (fillna_ffill ffill_example) ! 1) 1") auto
  from a b d e show ?thesis by simp
qed

end
